theory Spec2Isabelle
  imports Main
begin

section \<open>Tag codec of ProxyReduxAction.ts\<close>

text \<open>
  JavaScript strings are modelled as \<^typ>\<open>string\<close>. The three string primitives the
  source uses are written out: \<open>endsWith\<close>, \<open>startsWith\<close> and \<open>replace\<close> with a string
  pattern, which replaces the leftmost occurrence of the pattern only.
\<close>

definition SAGA_ACTION_TYPE_SUFFIX :: string where
  "SAGA_ACTION_TYPE_SUFFIX = ''__SAGA''"

definition USE_NEW_SATE :: string where
  "USE_NEW_SATE = ''__USE_NEW_SATE__''"

definition startsWith :: "string \<Rightarrow> string \<Rightarrow> bool" where
  "startsWith s p = (take (length p) s = p)"

definition endsWith :: "string \<Rightarrow> string \<Rightarrow> bool" where
  "endsWith s p = (length p \<le> length s \<and> drop (length s - length p) s = p)"

fun replace_str :: "string \<Rightarrow> string \<Rightarrow> string \<Rightarrow> string" where
  "replace_str pat rep [] = (if pat = [] then rep else [])"
| "replace_str pat rep (c # cs) =
     (if startsWith (c # cs) pat then rep @ drop (length pat) (c # cs)
      else c # replace_str pat rep cs)"

fun includes_str :: "string \<Rightarrow> string \<Rightarrow> bool" where
  "includes_str [] pat = (pat = [])"
| "includes_str (c # cs) pat = (startsWith (c # cs) pat \<or> includes_str cs pat)"

definition getReducerTypeNameBySaga :: "string \<Rightarrow> string" where
  "getReducerTypeNameBySaga type = replace_str SAGA_ACTION_TYPE_SUFFIX [] type"

definition getSagaTypeNameByReducer :: "string \<Rightarrow> string" where
  "getSagaTypeNameByReducer type = type @ SAGA_ACTION_TYPE_SUFFIX"

section \<open>JavaScript values\<close>

text \<open>
  Values of the handler, of the state and of payloads. A function value carries the
  identity \<open>'f\<close> of its code; what a call of it returns is a parameter of the model
  (\<open>call\<close> below), since handler operations are written by the application. The list of an
  object or a function holds the properties a read \<open>o[k]\<close> sees (own and inherited ones,
  \<open>__proto__\<close> and \<open>constructor\<close> included). Numbers are integers here.
\<close>

datatype 'f jsval =
    Undefined
  | Null
  | Bool bool
  | Num int
  | Str string
  | Obj "(string \<times> 'f jsval) list"
  | Fn 'f "(string \<times> 'f jsval) list"

datatype error = TypeError | Thrown

definition isNullOrUndefined :: "'f jsval \<Rightarrow> bool" where
  "isNullOrUndefined v = (v = Undefined \<or> v = Null)"

definition isUndefined :: "'f jsval \<Rightarrow> bool" where
  "isUndefined v = (v = Undefined)"

fun isFunction :: "'f jsval \<Rightarrow> bool" where
  "isFunction (Fn f ps) = True"
| "isFunction v = False"

fun truthy :: "'f jsval \<Rightarrow> bool" where
  "truthy Undefined = False"
| "truthy Null = False"
| "truthy (Bool b) = b"
| "truthy (Num n) = (n \<noteq> 0)"
| "truthy (Str s) = (s \<noteq> [])"
| "truthy (Obj ps) = True"
| "truthy (Fn f ps) = True"

text \<open>
  A property read on a value that is neither \<open>null\<close> nor \<open>undefined\<close>. It is used on a
  primitive for \<open>prototype\<close> and \<open>name\<close> only, which no primitive has: the read gives
  \<open>undefined\<close>.
\<close>

fun get_prop :: "'f jsval \<Rightarrow> string \<Rightarrow> 'f jsval" where
  "get_prop (Obj ps) k = (case map_of ps k of Some v \<Rightarrow> v | None \<Rightarrow> Undefined)"
| "get_prop (Fn f ps) k = (case map_of ps k of Some v \<Rightarrow> v | None \<Rightarrow> Undefined)"
| "get_prop v k = Undefined"

text \<open>
  What the module takes from its environment: the result of calling a handler operation
  \<open>handle(state, payload)\<close> (a value, or an exception), the properties an empty object
  literal \<open>{}\<close> inherits from \<open>Object.prototype\<close> (\<open>undefined\<close> for a name it does not
  have), and \<open>convertFunctionNameByPrefix\<close> of FindNameStragegy, which is imported by the
  source and not part of it.
\<close>

record 'f runtime =
  call :: "'f \<Rightarrow> 'f jsval \<Rightarrow> 'f jsval \<Rightarrow> error + 'f jsval"
  Object_prototype :: "string \<Rightarrow> 'f jsval"
  convertFunctionNameByPrefix :: "string \<Rightarrow> string"

section \<open>Handlers, messages and the store\<close>

text \<open>
  A \<open>Map<string, string>\<close>: its identity (a fresh number for every \<open>new Map()\<close>) and its
  entries in insertion order. \<open>set\<close> overwrites the value of a key that is present and
  appends otherwise.
\<close>

record js_map =
  map_id :: nat
  entries :: "(string \<times> string) list"

fun map_set :: "(string \<times> string) list \<Rightarrow> string \<Rightarrow> string \<Rightarrow> (string \<times> string) list" where
  "map_set [] k v = [(k, v)]"
| "map_set ((k', v') # es) k v =
     (if k' = k then (k, v) # es else (k', v') # map_set es k v)"

definition map_values :: "js_map \<Rightarrow> string list" where
  "map_values m = map snd (entries m)"

text \<open>
  A handler, as the source reads it:
  \<^item> \<open>constructor_name\<close> is \<open>handler.constructor.name\<close>;
  \<open>default'\<close> is \<open>handler.default\<close>;
  \<^item> \<open>actionNames\<close> is \<open>None\<close> while the field is \<open>null\<close> or \<open>undefined\<close>;
  \<^item> \<open>enumerable_fields\<close> lists what \<open>for (const key in handler)\<close> enumerates, each key
  with \<open>handler[key]\<close>;
  \<^item> \<open>prototype_names\<close> lists \<open>Object.getOwnPropertyNames(handlerPrototype)\<close>, each key
  with \<open>handlerPrototype[key]\<close>;
  \<^item> \<open>prototype_chain_names\<close> lists the names \<open>n\<close> with \<open>n in handlerPrototype\<close>.
\<close>

record 'f SagaHandler =
  constructor_name :: string
  default' :: "'f jsval"
  actionNames :: "js_map option"
  enumerable_fields :: "(string \<times> 'f jsval) list"
  prototype_names :: "(string \<times> 'f jsval) list"
  prototype_chain_names :: "string list"

record 'f ReduxAction =
  type :: string
  payload :: "'f jsval"

text \<open>
  The store is outside the module: its \<open>dispatch\<close> takes a message and the store's state
  and gives the store's answer (or an exception) and the new state. \<open>DEFAULT_STORE\<close> is
  \<open>None\<close> until \<open>registerStoreByProxy\<close> has run.
\<close>

record ('f, 'r, 's) Store =
  dispatch :: "'f ReduxAction \<Rightarrow> 's \<Rightarrow> (error + 'r) \<times> 's"
  store_state :: 's

definition registerStoreByProxy ::
  "('f, 'r, 's) Store \<Rightarrow> ('f, 'r, 's) Store option \<Rightarrow> ('f, 'r, 's) Store option" where
  "registerStoreByProxy store DEFAULT_STORE = Some store"

definition proxyDispatchBySaga ::
  "string \<Rightarrow> 'f jsval \<Rightarrow> bool \<Rightarrow> ('f, 'r, 's) Store option
     \<Rightarrow> (error + 'r) \<times> ('f, 'r, 's) Store option" where
  "proxyDispatchBySaga type' payload' pureAction' DEFAULT_STORE =
     (let byReducer = (if pureAction' then type' else getSagaTypeNameByReducer type') in
      case DEFAULT_STORE of
        None \<Rightarrow> (Inl TypeError, None)
      | Some store \<Rightarrow>
          (case dispatch store \<lparr>type = byReducer, payload = payload'\<rparr> (store_state store) of
             (r, s') \<Rightarrow> (r, Some (store\<lparr>store_state := s'\<rparr>))))"

section \<open>The dispatch interceptor\<close>

text \<open>
  A property key reaching the \<open>get\<close> trap of a proxy is a string or a symbol. A template
  literal converts a string key to itself and throws a TypeError on a symbol.
\<close>

datatype PropertyKey = PString string | PSymbol string

fun template_key :: "PropertyKey \<Rightarrow> error + string" where
  "template_key (PString s) = Inr s"
| "template_key (PSymbol d) = Inl TypeError"

text \<open>The loop \<open>for (let item of values) if (item === p) isPureAction = true\<close>.\<close>

fun scan_values :: "string list \<Rightarrow> PropertyKey \<Rightarrow> bool \<Rightarrow> bool" where
  "scan_values [] p isPureAction = isPureAction"
| "scan_values (item # items) p isPureAction =
     scan_values items p (if PString item = p then True else isPureAction)"

text \<open>
  The proxy closes over \<open>handlerName\<close> and \<open>pureAction\<close>; its target is the handler
  itself, read again at every invocation. \<open>addSagaHandler\<close> of SagaManager is outside the
  source and passed in; it acts on the registry \<open>'g\<close> of that module.
\<close>

record Facade =
  handlerName :: string
  pureAction :: bool

definition createReduxHandler ::
  "('f SagaHandler \<Rightarrow> 'g \<Rightarrow> 'g) \<Rightarrow> 'f SagaHandler \<Rightarrow> bool \<Rightarrow> 'g \<Rightarrow> Facade \<times> 'g" where
  "createReduxHandler addSagaHandler handler pure registry =
     (\<lparr>handlerName = constructor_name handler, pureAction = pure\<rparr>,
      addSagaHandler handler registry)"

text \<open>
  \<open>facade_invoke fac target p params\<close> is the function the \<open>get\<close> trap returns for \<open>p\<close>,
  applied to \<open>params\<close>. \<open>params[0]\<close> of an empty argument list is \<open>undefined\<close>.
\<close>

definition first_param :: "'f jsval list \<Rightarrow> 'f jsval" where
  "first_param params = (case params of [] \<Rightarrow> Undefined | x # xs \<Rightarrow> x)"

definition facade_invoke ::
  "Facade \<Rightarrow> 'f SagaHandler \<Rightarrow> PropertyKey \<Rightarrow> 'f jsval list \<Rightarrow> ('f, 'r, 's) Store option
     \<Rightarrow> (error + 'r) \<times> ('f, 'r, 's) Store option" where
  "facade_invoke fac target p params DEFAULT_STORE =
     (let isPureAction =
        (case actionNames target of
           Some m \<Rightarrow>
             if \<not> pureAction fac then scan_values (map_values m) p (pureAction fac)
             else pureAction fac
         | None \<Rightarrow> pureAction fac) in
      case template_key p of
        Inl e \<Rightarrow> (Inl e, DEFAULT_STORE)
      | Inr name \<Rightarrow>
          proxyDispatchBySaga (handlerName fac @ ''.'' @ name) (first_param params)
            isPureAction DEFAULT_STORE)"

text \<open>
  The property access \<open>proxy[p]\<close> on \<open>new Proxy(handler, proxyHandler)\<close>. After the trap,
  the proxy checks its result against the target's own property descriptor for \<open>p\<close>: for
  a property that is not configurable, a data property that is not writable must be
  reported with its own value, and an accessor without getter as \<open>undefined\<close>. The trap
  returns a new function every time, which is neither, so the access throws a TypeError
  for such a key. \<open>getOwnProperty\<close> gives the target's descriptor of a key.
\<close>

datatype 'f descriptor =
    NoOwnProperty
  | DataProperty "'f jsval" (writable: bool) (data_configurable: bool)
  | AccessorProperty (has_getter: bool) (accessor_configurable: bool)

fun get_invariant_broken :: "'f descriptor \<Rightarrow> bool" where
  "get_invariant_broken NoOwnProperty = False"
| "get_invariant_broken (DataProperty v w c) = (\<not> c \<and> \<not> w)"
| "get_invariant_broken (AccessorProperty g c) = (\<not> c \<and> \<not> g)"

definition facade_get ::
  "Facade \<Rightarrow> (PropertyKey \<Rightarrow> 'f descriptor) \<Rightarrow> PropertyKey
     \<Rightarrow> error + ('f SagaHandler \<Rightarrow> 'f jsval list \<Rightarrow> ('f, 'r, 's) Store option
                  \<Rightarrow> (error + 'r) \<times> ('f, 'r, 's) Store option)" where
  "facade_get fac getOwnProperty p =
     (if get_invariant_broken (getOwnProperty p) then Inl TypeError
      else Inr (\<lambda>target params DEFAULT_STORE. facade_invoke fac target p params DEFAULT_STORE))"

text \<open>\<open>proxy[p](...params)\<close>: the access, then the call of what it yields.\<close>

definition facade_call ::
  "Facade \<Rightarrow> (PropertyKey \<Rightarrow> 'f descriptor) \<Rightarrow> 'f SagaHandler \<Rightarrow> PropertyKey \<Rightarrow> 'f jsval list
     \<Rightarrow> ('f, 'r, 's) Store option \<Rightarrow> (error + 'r) \<times> ('f, 'r, 's) Store option" where
  "facade_call fac getOwnProperty target p params DEFAULT_STORE =
     (case facade_get fac getOwnProperty p of
        Inl e \<Rightarrow> (Inl e, DEFAULT_STORE)
      | Inr forward \<Rightarrow> forward target params DEFAULT_STORE)"

text \<open>The \<open>set\<close> trap: the write is accepted and the handler is left as it is.\<close>

definition facade_set ::
  "Facade \<Rightarrow> 'f SagaHandler \<Rightarrow> PropertyKey \<Rightarrow> 'f jsval \<Rightarrow> bool \<times> 'f SagaHandler" where
  "facade_set fac target p v = (True, target)"

section \<open>The reducer synthesizer\<close>

text \<open>
  \<open>isGenerator\<close> gives back \<open>prototype\<close> itself when it is \<open>null\<close> or \<open>undefined\<close>, and
  the operand \<open>__proto__\<close> of \<open>&&\<close> when that is falsy. The \<open>__proto__\<close> of a primitive
  is the prototype of its wrapper and the constructor of a primitive is the wrapper
  (\<open>Number\<close>, \<open>String\<close>, \<open>Boolean\<close>), whose name is not the one looked for: the result is
  \<open>false\<close>. The call throws when \<open>__proto__.constructor\<close> is \<open>null\<close> or \<open>undefined\<close> (the
  read of \<open>name\<close>).
\<close>

fun isPrimitive :: "'f jsval \<Rightarrow> bool" where
  "isPrimitive (Obj ps) = False"
| "isPrimitive (Fn f ps) = False"
| "isPrimitive v = True"

definition isGenerator :: "'f jsval \<Rightarrow> error + 'f jsval" where
  "isGenerator prototype =
     (if isNullOrUndefined prototype then Inr prototype
      else if isPrimitive prototype then Inr (Bool False)
      else let proto = get_prop prototype ''__proto__'' in
        if isNullOrUndefined proto then Inr (Bool False)
        else if \<not> truthy proto then Inr proto
        else if isPrimitive proto then Inr (Bool False)
        else let ctor = get_prop proto ''constructor'' in
          if isNullOrUndefined ctor then Inl TypeError
          else Inr (Bool (get_prop ctor ''name'' = Str ''GeneratorFunctionPrototype'')))"

type_synonym 'f actions = "string \<rightharpoonup> 'f jsval"

text \<open>
  \<open>addAction\<close>; \<open>handlerPrototype\<close> is read through the handler's
  \<open>prototype_chain_names\<close>. The result is the table and the handler after the call.
\<close>

definition addAction ::
  "'f runtime \<Rightarrow> 'f actions \<Rightarrow> string \<Rightarrow> string \<Rightarrow> 'f jsval \<Rightarrow> 'f SagaHandler
     \<Rightarrow> (error + 'f actions) \<times> 'f SagaHandler" where
  "addAction rt actions name key handle handler =
     (let actions' = actions(name @ ''.'' @ key \<mapsto> handle) in
      if startsWith key ''set'' then
        (let getFuncName = convertFunctionNameByPrefix rt key in
         if getFuncName \<in> set (prototype_chain_names handler) then
           (case actionNames handler of
              None \<Rightarrow> (Inl TypeError, handler)
            | Some m \<Rightarrow>
                (Inr actions',
                 handler\<lparr>actionNames := Some (m\<lparr>entries := map_set (entries m) getFuncName key\<rparr>)\<rparr>))
         else (Inr actions', handler))
      else (Inr actions', handler))"

text \<open>The loop over \<open>for (const key in handler)\<close>.\<close>

fun forin_loop ::
  "'f runtime \<Rightarrow> string \<Rightarrow> (string \<times> 'f jsval) list \<Rightarrow> 'f actions \<Rightarrow> 'f SagaHandler
     \<Rightarrow> (error + 'f actions) \<times> 'f SagaHandler" where
  "forin_loop rt name [] actions handler = (Inr actions, handler)"
| "forin_loop rt name ((key, v) # rest) actions handler =
     (if key = ''actionNames'' \<or> key = ''default'' then forin_loop rt name rest actions handler
      else case addAction rt actions name key v handler of
        (Inl e, handler') \<Rightarrow> (Inl e, handler')
      | (Inr actions', handler') \<Rightarrow> forin_loop rt name rest actions' handler')"

text \<open>The \<open>forEach\<close> over the prototype's own property names.\<close>

fun prototype_loop ::
  "'f runtime \<Rightarrow> string \<Rightarrow> (string \<times> 'f jsval) list \<Rightarrow> 'f actions \<Rightarrow> 'f SagaHandler
     \<Rightarrow> (error + 'f actions) \<times> 'f SagaHandler" where
  "prototype_loop rt name [] actions handler = (Inr actions, handler)"
| "prototype_loop rt name ((key, handle) # rest) actions handler =
     (if isNullOrUndefined handle then prototype_loop rt name rest actions handler
      else case isGenerator (get_prop handle ''prototype'') of
        Inl e \<Rightarrow> (Inl e, handler)
      | Inr g \<Rightarrow>
          if truthy g then prototype_loop rt name rest actions handler
          else (case addAction rt actions name key handle handler of
            (Inl e, handler') \<Rightarrow> (Inl e, handler')
          | (Inr actions', handler') \<Rightarrow> prototype_loop rt name rest actions' handler'))"

text \<open>\<open>actions[type]\<close> on the object literal \<open>actions\<close>.\<close>

definition actions_get :: "'f runtime \<Rightarrow> 'f actions \<Rightarrow> string \<Rightarrow> 'f jsval" where
  "actions_get rt actions k =
     (case actions k of Some v \<Rightarrow> v | None \<Rightarrow> Object_prototype rt k)"

text \<open>
  The function \<open>createReducerByHandler\<close> returns. Its first parameter has the default
  value \<open>defaultState\<close>, which stands in for an \<open>undefined\<close> argument.
\<close>

definition reducer ::
  "'f runtime \<Rightarrow> 'f jsval \<Rightarrow> 'f actions \<Rightarrow> 'f jsval \<Rightarrow> 'f ReduxAction \<Rightarrow> error + 'f jsval" where
  "reducer rt defaultState actions state0 action =
     (let state = (if state0 = Undefined then defaultState else state0) in
      if endsWith (type action) SAGA_ACTION_TYPE_SUFFIX then Inr state
      else let handle = actions_get rt actions (type action) in
        if isUndefined handle then Inr state
        else if handle = Str USE_NEW_SATE then Inr (payload action)
        else (case handle of
                Fn f ps \<Rightarrow> call rt f state (payload action)
              | _ \<Rightarrow> Inr handle))"

text \<open>
  \<open>createReducerByHandler\<close> up to the table \<open>actions\<close> (lines 116 to 155): the result,
  the handler after the call and the next free map identity.
\<close>

definition createReducerByHandler_actions ::
  "'f runtime \<Rightarrow> 'f SagaHandler \<Rightarrow> nat \<Rightarrow> (error + 'f actions) \<times> 'f SagaHandler \<times> nat" where
  "createReducerByHandler_actions rt handler0 next_id =
     (let name = constructor_name handler0;
          (handler, next_id') =
            (if actionNames handler0 = None
             then (handler0\<lparr>actionNames := Some \<lparr>map_id = next_id, entries = []\<rparr>\<rparr>, Suc next_id)
             else (handler0, next_id));
          keys = prototype_names handler in
      case forin_loop rt name (enumerable_fields handler) Map.empty handler of
        (Inl e, handler') \<Rightarrow> (Inl e, handler', next_id')
      | (Inr actions, handler') \<Rightarrow>
          (case prototype_loop rt name (filter (\<lambda>(key, handle). key \<noteq> ''constructor'') keys)
                  actions handler' of
             (r, handler'') \<Rightarrow> (r, handler'', next_id')))"

definition createReducerByHandler ::
  "'f runtime \<Rightarrow> 'f SagaHandler \<Rightarrow> nat
     \<Rightarrow> (error + ('f jsval \<Rightarrow> 'f ReduxAction \<Rightarrow> error + 'f jsval)) \<times> 'f SagaHandler \<times> nat" where
  "createReducerByHandler rt handler next_id =
     (case createReducerByHandler_actions rt handler next_id of
        (Inl e, handler', next_id') \<Rightarrow> (Inl e, handler', next_id')
      | (Inr actions, handler', next_id') \<Rightarrow>
          (Inr (reducer rt (default' handler) actions), handler', next_id'))"

text \<open>\<open>createReducerByHandler(handler)(state, action)\<close>.\<close>

definition transition ::
  "'f runtime \<Rightarrow> 'f SagaHandler \<Rightarrow> nat \<Rightarrow> 'f jsval \<Rightarrow> 'f ReduxAction \<Rightarrow> error + 'f jsval" where
  "transition rt handler next_id state action =
     (case fst (createReducerByHandler rt handler next_id) of
        Inl e \<Rightarrow> Inl e
      | Inr red \<Rightarrow> red state action)"

text \<open>
  \<open>n\<close> calls of \<open>createReducerByHandler\<close> on one handler, one after the other, whatever
  each of them returns or throws.
\<close>

fun createReducerByHandler_times ::
  "'f runtime \<Rightarrow> nat \<Rightarrow> 'f SagaHandler \<Rightarrow> nat \<Rightarrow> 'f SagaHandler \<times> nat" where
  "createReducerByHandler_times rt 0 handler next_id = (handler, next_id)"
| "createReducerByHandler_times rt (Suc n) handler next_id =
     (case createReducerByHandler rt handler next_id of
        (r, handler', next_id') \<Rightarrow> createReducerByHandler_times rt n handler' next_id')"

text \<open>
  An operation the classifier takes for a generator: a function whose \<open>prototype\<close> passes
  \<open>isGenerator\<close>.
\<close>

definition generator_shaped :: "'f jsval \<Rightarrow> bool" where
  "generator_shaped handle =
     (isFunction handle \<and>
      (case isGenerator (get_prop handle ''prototype'') of Inl e \<Rightarrow> False | Inr g \<Rightarrow> truthy g))"

text \<open>The values of the classification metadata, none while the field is not set.\<close>

definition actionNames_values :: "js_map option \<Rightarrow> string list" where
  "actionNames_values a = (case a of None \<Rightarrow> [] | Some m \<Rightarrow> map_values m)"

text \<open>The state the body of the reducer works on, after the parameter's default.\<close>

definition state_or_default :: "'f jsval \<Rightarrow> 'f jsval \<Rightarrow> 'f jsval" where
  "state_or_default defaultState state = (if state = Undefined then defaultState else state)"

text \<open>
  The entry of a tag in the table \<open>actions\<close> that \<open>createReducerByHandler\<close> builds for a
  handler: \<open>Inr None\<close> when the table has no entry of its own for the tag, \<open>Inl\<close> when the
  construction throws.
\<close>

definition table_lookup ::
  "'f runtime \<Rightarrow> 'f SagaHandler \<Rightarrow> nat \<Rightarrow> string \<Rightarrow> error + 'f jsval option" where
  "table_lookup rt handler next_id tag =
     (case fst (createReducerByHandler_actions rt handler next_id) of
        Inl e \<Rightarrow> Inl e
      | Inr actions \<Rightarrow> Inr (actions tag))"

text \<open>
  No value on the prototype makes \<open>isGenerator\<close> throw (none has a \<open>prototype\<close> whose
  \<open>__proto__\<close> lacks a constructor).
\<close>

definition reflection_safe :: "'f SagaHandler \<Rightarrow> bool" where
  "reflection_safe handler =
     (\<forall>(key, handle) \<in> set (prototype_names handler).
        \<not> isl (isGenerator (get_prop handle ''prototype'')))"

text \<open>
  An entry that \<open>addAction\<close> writes: the getter name derived from a setter of the
  handler, mapped to that setter.
\<close>

definition derived_entry :: "'f runtime \<Rightarrow> 'f SagaHandler \<Rightarrow> string \<Rightarrow> string \<Rightarrow> bool" where
  "derived_entry rt handler getFuncName key =
     (startsWith key ''set'' \<and> getFuncName = convertFunctionNameByPrefix rt key \<and>
      getFuncName \<in> set (prototype_chain_names handler))"

text \<open>
  \<open>keys_kept rt handler m m'\<close>: \<open>m'\<close> is the map \<open>m\<close> (the same identity) after calls of
  \<open>set\<close> only. The keys of \<open>m\<close> are still there, in their places, before any new key;
  every entry of \<open>m'\<close> is one of \<open>m\<close> or a derived one; and an entry of \<open>m\<close> is either
  still in \<open>m'\<close> or its key now holds a derived entry (its value was overwritten).
\<close>

definition keys_kept :: "'f runtime \<Rightarrow> 'f SagaHandler \<Rightarrow> js_map \<Rightarrow> js_map \<Rightarrow> bool" where
  "keys_kept rt handler m m' =
     (map_id m' = map_id m \<and>
      take (length (entries m)) (map fst (entries m')) = map fst (entries m) \<and>
      (\<forall>(getFuncName, key) \<in> set (entries m').
         (getFuncName, key) \<in> set (entries m) \<or> derived_entry rt handler getFuncName key) \<and>
      (\<forall>(getFuncName, v) \<in> set (entries m).
         (getFuncName, v) \<in> set (entries m') \<or>
         (\<exists>(g, key) \<in> set (entries m'). g = getFuncName \<and> derived_entry rt handler g key)))"

text \<open>One call of the store's \<open>dispatch\<close> with a message.\<close>

definition dispatch_once ::
  "('f, 'r, 's) Store \<Rightarrow> 'f ReduxAction \<Rightarrow> (error + 'r) \<times> ('f, 'r, 's) Store option" where
  "dispatch_once store action =
     (case dispatch store action (store_state store) of
        (r, s') \<Rightarrow> (r, Some (store\<lparr>store_state := s'\<rparr>)))"

text \<open>
  A value on the prototype that the \<open>forEach\<close> leaves out of the table: \<open>null\<close>,
  \<open>undefined\<close>, or one whose \<open>prototype\<close> passes \<open>isGenerator\<close>.
\<close>

definition skipped :: "'f jsval \<Rightarrow> bool" where
  "skipped handle =
     (isNullOrUndefined handle \<or>
      (case isGenerator (get_prop handle ''prototype'') of Inl e \<Rightarrow> False | Inr g \<Rightarrow> truthy g))"

text \<open>
  The map in \<open>handler.actionNames\<close> once lines 124 to 126 have run: the one that was
  there, or a new empty one.
\<close>

definition initialized :: "'f SagaHandler \<Rightarrow> nat \<Rightarrow> js_map" where
  "initialized handler next_id =
     (case actionNames handler of None \<Rightarrow> \<lparr>map_id = next_id, entries = []\<rparr> | Some m \<Rightarrow> m)"

section \<open>A concrete runtime and concrete handlers\<close>

text \<open>
  Modelled from the spec: \<open>convertFunctionNameByPrefix\<close> of FindNameStragegy is not in the
  source. The spec has it strip the prefix \<open>set\<close> and lower-case the first remaining
  character (\<open>setCount\<close> gives \<open>count\<close>).
\<close>

definition toLowerCase_char :: "char \<Rightarrow> char" where
  "toLowerCase_char c =
     (let n = (of_char c :: nat) in if 65 \<le> n \<and> n \<le> 90 then char_of (n + 32) else c)"

definition convertFunctionNameByPrefix_spec :: "string \<Rightarrow> string" where
  "convertFunctionNameByPrefix_spec key =
     (case drop 3 key of [] \<Rightarrow> [] | c # cs \<Rightarrow> toLowerCase_char c # cs)"

text \<open>
  The code of the functions in the examples: \<open>(state, payload) => payload\<close>,
  \<open>(state, payload) => state\<close>, a generator function (a call gives a generator object), a
  class constructor and \<open>Object.prototype.hasOwnProperty\<close> (both throw a TypeError when
  called as \<open>handle(state, payload)\<close>).
\<close>

datatype example_code = ReturnPayload | ReturnState | GeneratorBody | ClassConstructor | HasOwnProperty

fun example_call ::
  "example_code \<Rightarrow> example_code jsval \<Rightarrow> example_code jsval \<Rightarrow> error + example_code jsval" where
  "example_call ReturnPayload state pl = Inr pl"
| "example_call ReturnState state pl = Inr state"
| "example_call GeneratorBody state pl = Inr (Obj [])"
| "example_call ClassConstructor state pl = Inl TypeError"
| "example_call HasOwnProperty state pl = Inl TypeError"

text \<open>
  Two of the properties every object literal inherits: \<open>__proto__\<close> (of \<open>{}\<close> it is
  \<open>Object.prototype\<close>, an object that is no function) and \<open>hasOwnProperty\<close>.
\<close>

definition example_Object_prototype :: "string \<Rightarrow> example_code jsval" where
  "example_Object_prototype k =
     (if k = ''__proto__'' then Obj [(''hasOwnProperty'', Fn HasOwnProperty [])]
      else if k = ''hasOwnProperty'' then Fn HasOwnProperty []
      else Undefined)"

definition example_runtime :: "example_code runtime" where
  "example_runtime =
     \<lparr>call = example_call,
      Object_prototype = example_Object_prototype,
      convertFunctionNameByPrefix = convertFunctionNameByPrefix_spec\<rparr>"

text \<open>
  An ordinary function: the \<open>__proto__\<close> of its \<open>prototype\<close> is \<open>Object.prototype\<close>, whose
  constructor is named \<open>Object\<close>. A generator function under the regenerator runtime: the
  \<open>__proto__\<close> of its \<open>prototype\<close> has a constructor named \<open>GeneratorFunctionPrototype\<close>.
\<close>

definition plain_function :: "example_code \<Rightarrow> example_code jsval" where
  "plain_function code =
     Fn code [(''prototype'',
       Obj [(''__proto__'', Obj [(''constructor'', Fn ClassConstructor [(''name'', Str ''Object'')])])])]"

definition generator_function :: "example_code jsval" where
  "generator_function =
     Fn GeneratorBody [(''prototype'',
       Obj [(''__proto__'',
         Obj [(''constructor'', Fn ClassConstructor [(''name'', Str ''GeneratorFunctionPrototype'')])])])]"

text \<open>
  \<open>class H { count = 0; reset = USE_NEW_SATE; default = 0;
  setCount(state, payload) { return payload } keep(state, payload) { return state }
  *fetchData() {} }\<close>: the fields are own and enumerable, the methods are on the prototype
  and are not enumerable.
\<close>

definition example_handler :: "example_code SagaHandler" where
  "example_handler =
     \<lparr>constructor_name = ''H'',
      default' = Num 0,
      actionNames = None,
      enumerable_fields = [(''count'', Num 0), (''reset'', Str USE_NEW_SATE), (''default'', Num 0)],
      prototype_names =
        [(''constructor'', plain_function ClassConstructor),
         (''setCount'', plain_function ReturnPayload),
         (''keep'', plain_function ReturnState),
         (''fetchData'', generator_function)],
      prototype_chain_names =
        [''constructor'', ''setCount'', ''keep'', ''fetchData'', ''hasOwnProperty'', ''__proto__'']\<rparr>"

text \<open>
  \<open>class G { default = 0; fetchData = function* () {} }\<close>: the generator function is an own
  enumerable field.
\<close>

definition field_generator_handler :: "example_code SagaHandler" where
  "field_generator_handler =
     \<lparr>constructor_name = ''G'',
      default' = Num 0,
      actionNames = None,
      enumerable_fields = [(''default'', Num 0), (''fetchData'', generator_function)],
      prototype_names = [(''constructor'', plain_function ClassConstructor)],
      prototype_chain_names = [''constructor'', ''hasOwnProperty'', ''__proto__'']\<rparr>"

text \<open>
  \<open>class Counter { default = 0; setCount(state, payload) { return payload }
  count(state, payload) { return state } }\<close>: the setter has a getter of the derived name on
  the prototype.
\<close>

definition counter_handler :: "example_code SagaHandler" where
  "counter_handler =
     \<lparr>constructor_name = ''Counter'',
      default' = Num 0,
      actionNames = None,
      enumerable_fields = [(''default'', Num 0)],
      prototype_names =
        [(''constructor'', plain_function ClassConstructor),
         (''setCount'', plain_function ReturnPayload),
         (''count'', plain_function ReturnState)],
      prototype_chain_names =
        [''constructor'', ''setCount'', ''count'', ''hasOwnProperty'', ''__proto__'']\<rparr>"

text \<open>
  The handler \<open>counter_handler\<close> with \<open>actionNames\<close> already set, by other code, to a map
  that holds \<open>count\<close> with another value.
\<close>

definition preset_handler :: "example_code SagaHandler" where
  "preset_handler =
     counter_handler\<lparr>actionNames := Some \<lparr>map_id = 3, entries = [(''count'', ''old'')]\<rparr>\<rparr>"

text \<open>
  \<open>class Pair { default = 0; setCount(state, payload) { return payload }
  setcount(state, payload) { return payload } count(state, payload) { return state } }\<close>:
  two setters with one derived getter name.
\<close>

definition two_setter_handler :: "example_code SagaHandler" where
  "two_setter_handler =
     \<lparr>constructor_name = ''Pair'',
      default' = Num 0,
      actionNames = None,
      enumerable_fields = [(''default'', Num 0)],
      prototype_names =
        [(''constructor'', plain_function ClassConstructor),
         (''setCount'', plain_function ReturnPayload),
         (''setcount'', plain_function ReturnPayload),
         (''count'', plain_function ReturnState)],
      prototype_chain_names =
        [''constructor'', ''setCount'', ''setcount'', ''count'', ''hasOwnProperty'', ''__proto__'']\<rparr>"

text \<open>
  The own property descriptors of an instance of a class whose fields were assigned in
  the constructor (none is fixed; the two keys of the examples are listed), and of the
  same instance after \<open>Object.freeze\<close>: its own field \<open>default\<close> is neither writable nor
  configurable.
\<close>

definition plain_descriptors :: "PropertyKey \<Rightarrow> example_code descriptor" where
  "plain_descriptors p =
     (if p = PString ''default'' then DataProperty (Num 0) True True else NoOwnProperty)"

definition frozen_descriptors :: "PropertyKey \<Rightarrow> example_code descriptor" where
  "frozen_descriptors p =
     (if p = PString ''default'' then DataProperty (Num 0) False False else NoOwnProperty)"

text \<open>A store that records every message it is given and answers with the message.\<close>

definition logging_store ::
  "(example_code, example_code ReduxAction, example_code ReduxAction list) Store" where
  "logging_store = \<lparr>dispatch = (\<lambda>a log. (Inr a, log @ [a])), store_state = []\<rparr>"

text \<open>The table \<open>createReducerByHandler\<close> builds for \<open>example_handler\<close>.\<close>

definition example_table :: "example_code actions" where
  "example_table =
     [''H.count'' \<mapsto> Num 0,
      ''H.reset'' \<mapsto> Str USE_NEW_SATE,
      ''H.setCount'' \<mapsto> plain_function ReturnPayload,
      ''H.keep'' \<mapsto> plain_function ReturnState]"

text \<open>The table it builds for \<open>field_generator_handler\<close>.\<close>

definition field_generator_table :: "example_code actions" where
  "field_generator_table = [''G.fetchData'' \<mapsto> generator_function]"

section \<open>Properties of the tag codec\<close>

lemma startsWith_Cons: "startsWith (c # cs) (p # ps) = (c = p \<and> startsWith cs ps)"
  by (simp add: startsWith_def)

lemma startsWith_Nil: "startsWith s [] = True"
  by (simp add: startsWith_def)

lemma startsWith_Nil_left: "startsWith [] p = (p = [])"
  by (auto simp add: startsWith_def)

lemma startsWith_append_Cons:
  "startsWith (t @ q) (p # ps) =
     (case t of [] \<Rightarrow> startsWith q (p # ps) | c # cs \<Rightarrow> c = p \<and> startsWith (cs @ q) ps)"
  by (cases t) (simp_all add: startsWith_Cons)

lemma startsWith_iff: "startsWith s p = (\<exists>r. s = p @ r)"
proof
  assume "startsWith s p"
  then have "s = p @ drop (length p) s"
    by (metis append_take_drop_id startsWith_def)
  then show "\<exists>r. s = p @ r" ..
next
  assume "\<exists>r. s = p @ r"
  then show "startsWith s p"
    by (auto simp: startsWith_def)
qed

text \<open>\<open>includes_str\<close> is the substring test.\<close>

lemma includes_str_iff: "includes_str s p = (\<exists>l r. s = l @ p @ r)"
proof (induction s)
  case Nil
  then show ?case by auto
next
  case (Cons c cs)
  show ?case
  proof
    assume "includes_str (c # cs) p"
    then consider "startsWith (c # cs) p" | "includes_str cs p" by auto
    then show "\<exists>l r. c # cs = l @ p @ r"
    proof cases
      case 1
      then obtain r where "c # cs = p @ r" using startsWith_iff by blast
      then have "c # cs = [] @ p @ r" by simp
      then show ?thesis by blast
    next
      case 2
      with Cons.IH obtain l r where "cs = l @ p @ r" by blast
      then have "c # cs = (c # l) @ p @ r" by simp
      then show ?thesis by blast
    qed
  next
    assume "\<exists>l r. c # cs = l @ p @ r"
    then obtain l r where lr: "c # cs = l @ p @ r" by blast
    show "includes_str (c # cs) p"
    proof (cases l)
      case Nil
      with lr have "startsWith (c # cs) p" using startsWith_iff by fastforce
      then show ?thesis by simp
    next
      case (Cons x l')
      with lr have "cs = l' @ p @ r" by simp
      with Cons.IH have "includes_str cs p" by blast
      then show ?thesis by simp
    qed
  qed
qed

text \<open>
  No occurrence of the suffix in \<open>t @ ''__SAGA''\<close> starts inside a non-empty \<open>t\<close> and runs
  over its end: the suffix has no proper border.
\<close>

lemma suffix_no_overlap:
  "t \<noteq> [] \<Longrightarrow> startsWith (t @ SAGA_ACTION_TYPE_SUFFIX) SAGA_ACTION_TYPE_SUFFIX
     \<Longrightarrow> startsWith t SAGA_ACTION_TYPE_SUFFIX"
  unfolding SAGA_ACTION_TYPE_SUFFIX_def
  by (auto simp: startsWith_append_Cons startsWith_Cons startsWith_Nil startsWith_Nil_left
      split: list.splits)

lemma startsWith_append_long: "length p \<le> length l \<Longrightarrow> startsWith (l @ s) p = startsWith l p"
  by (simp add: startsWith_def)

lemma startsWith_append_short:
  "length l \<le> length p \<Longrightarrow> startsWith (l @ p @ s) p = startsWith (l @ p) p"
  by (simp add: startsWith_def)

lemma replace_str_absent: "\<not> includes_str s p \<Longrightarrow> replace_str p r s = s"
  by (induction s) auto

lemma replace_str_first:
  "\<not> includes_str l p \<Longrightarrow> p \<noteq> [] \<Longrightarrow>
   (\<forall>l1 l2. l = l1 @ l2 \<and> l2 \<noteq> [] \<longrightarrow> \<not> startsWith (l2 @ p) p) \<Longrightarrow>
   replace_str p r (l @ p @ s) = l @ r @ s"
proof (induction l)
  case Nil
  then show ?case
    by (cases p) (simp_all add: startsWith_def)
next
  case (Cons c cs)
  from Cons.prems(1) have nin: "\<not> includes_str cs p" by simp
  have nb: "\<forall>l1 l2. cs = l1 @ l2 \<and> l2 \<noteq> [] \<longrightarrow> \<not> startsWith (l2 @ p) p"
  proof (intro allI impI)
    fix l1 l2
    assume "cs = l1 @ l2 \<and> l2 \<noteq> []"
    then have "c # cs = (c # l1) @ l2 \<and> l2 \<noteq> []" by simp
    with Cons.prems(3) show "\<not> startsWith (l2 @ p) p" by blast
  qed
  have "\<not> startsWith ((c # cs) @ p @ s) p"
  proof
    assume sw: "startsWith ((c # cs) @ p @ s) p"
    show False
    proof (cases "length p \<le> length (c # cs)")
      case True
      with sw have "startsWith (c # cs) p"
        using startsWith_append_long[of p "c # cs" "p @ s"] by simp
      with Cons.prems(1) show False by simp
    next
      case False
      with sw have "startsWith ((c # cs) @ p) p"
        using startsWith_append_short[of "c # cs" p s] by simp
      moreover have "c # cs = [] @ (c # cs) \<and> c # cs \<noteq> []" by simp
      ultimately show False using Cons.prems(3) by blast
    qed
  qed
  with Cons.IH[OF nin Cons.prems(2) nb] show ?case by simp
qed

lemma getReducerTypeNameBySaga_absent:
  "\<not> includes_str t SAGA_ACTION_TYPE_SUFFIX \<Longrightarrow> getReducerTypeNameBySaga t = t"
  by (simp add: getReducerTypeNameBySaga_def replace_str_absent)

lemma getReducerTypeNameBySaga_removes_leftmost:
  assumes "\<not> includes_str l SAGA_ACTION_TYPE_SUFFIX"
  shows "getReducerTypeNameBySaga (l @ SAGA_ACTION_TYPE_SUFFIX @ s) = l @ s"
proof -
  have "\<forall>l1 l2. l = l1 @ l2 \<and> l2 \<noteq> [] \<longrightarrow>
          \<not> startsWith (l2 @ SAGA_ACTION_TYPE_SUFFIX) SAGA_ACTION_TYPE_SUFFIX"
  proof (intro allI impI)
    fix l1 l2
    assume a: "l = l1 @ l2 \<and> l2 \<noteq> []"
    show "\<not> startsWith (l2 @ SAGA_ACTION_TYPE_SUFFIX) SAGA_ACTION_TYPE_SUFFIX"
    proof
      assume "startsWith (l2 @ SAGA_ACTION_TYPE_SUFFIX) SAGA_ACTION_TYPE_SUFFIX"
      with a have "startsWith l2 SAGA_ACTION_TYPE_SUFFIX"
        using suffix_no_overlap by blast
      then obtain r where "l2 = SAGA_ACTION_TYPE_SUFFIX @ r"
        using startsWith_iff by blast
      with a have "l = l1 @ SAGA_ACTION_TYPE_SUFFIX @ r" by simp
      then have "includes_str l SAGA_ACTION_TYPE_SUFFIX"
        using includes_str_iff by blast
      with assms show False by simp
    qed
  qed
  moreover have "SAGA_ACTION_TYPE_SUFFIX \<noteq> []"
    by (simp add: SAGA_ACTION_TYPE_SUFFIX_def)
  ultimately have "replace_str SAGA_ACTION_TYPE_SUFFIX [] (l @ SAGA_ACTION_TYPE_SUFFIX @ s) = l @ [] @ s"
    using assms replace_str_first by blast
  then show ?thesis
    by (simp add: getReducerTypeNameBySaga_def)
qed

text \<open>
  C6. For every tag \<open>t\<close> that does not contain the suffix \<open>__SAGA\<close> as a substring,
  removing the suffix from the deferred tag of \<open>t\<close> gives \<open>t\<close> back:
  \<open>getReducerTypeNameBySaga (getSagaTypeNameByReducer t) = t\<close>.
\<close>

theorem tag_roundtrip:
  assumes "\<not> includes_str t SAGA_ACTION_TYPE_SUFFIX"
  shows "getReducerTypeNameBySaga (getSagaTypeNameByReducer t) = t"
  using assms
proof (induction t)
  case Nil
  show ?case
    by (simp add: getReducerTypeNameBySaga_def getSagaTypeNameByReducer_def
        SAGA_ACTION_TYPE_SUFFIX_def startsWith_def)
next
  case (Cons c cs)
  from Cons.prems have here: "\<not> startsWith (c # cs) SAGA_ACTION_TYPE_SUFFIX"
    and rest: "\<not> includes_str cs SAGA_ACTION_TYPE_SUFFIX"
    by simp_all
  from here suffix_no_overlap[of "c # cs"]
  have "\<not> startsWith ((c # cs) @ SAGA_ACTION_TYPE_SUFFIX) SAGA_ACTION_TYPE_SUFFIX"
    by blast
  with Cons.IH[OF rest] show ?case
    by (simp add: getReducerTypeNameBySaga_def getSagaTypeNameByReducer_def)
qed

theorem tag_roundtrip_witness:
  "\<not> includes_str ''H.setCount'' SAGA_ACTION_TYPE_SUFFIX \<and>
   getReducerTypeNameBySaga (getSagaTypeNameByReducer ''H.setCount'') = ''H.setCount''"
proof -
  have h: "\<not> includes_str ''H.setCount'' SAGA_ACTION_TYPE_SUFFIX"
    by (simp add: SAGA_ACTION_TYPE_SUFFIX_def startsWith_def)
  from tag_roundtrip[OF h] h show ?thesis by simp
qed

text \<open>
  C7. The claim is that \<open>getReducerTypeNameBySaga\<close> only ever removes a trailing
  \<open>__SAGA\<close> and returns every other tag unchanged. \<open>String.replace\<close> removes the leftmost
  occurrence instead: \<open>H.a__SAGAb\<close> does not end with the suffix and loses the inner
  occurrence, and \<open>H.a__SAGAb__SAGA\<close> (the deferred tag of \<open>H.a__SAGAb\<close>) keeps its
  trailing suffix and loses the inner one.
\<close>

theorem getReducerTypeNameBySaga_leftmost:
  "\<not> endsWith ''H.a__SAGAb'' SAGA_ACTION_TYPE_SUFFIX \<and>
   getReducerTypeNameBySaga ''H.a__SAGAb'' = ''H.ab'' \<and>
   endsWith (getSagaTypeNameByReducer ''H.a__SAGAb'') SAGA_ACTION_TYPE_SUFFIX \<and>
   getReducerTypeNameBySaga (getSagaTypeNameByReducer ''H.a__SAGAb'') = ''H.ab__SAGA''"
  by (simp add: getReducerTypeNameBySaga_def getSagaTypeNameByReducer_def
      SAGA_ACTION_TYPE_SUFFIX_def startsWith_def endsWith_def)

section \<open>Properties of the dispatch interceptor\<close>

lemma scan_values_string: "scan_values vs (PString n) b = (b \<or> n \<in> set vs)"
  by (induction vs arbitrary: b) auto

lemma proxyDispatchBySaga_registered:
  "proxyDispatchBySaga t p pure (Some store) =
     dispatch_once store \<lparr>type = (if pure then t else getSagaTypeNameByReducer t), payload = p\<rparr>"
  by (simp add: proxyDispatchBySaga_def dispatch_once_def)

lemma proxyDispatchBySaga_unregistered:
  "proxyDispatchBySaga t p pure None = (Inl TypeError, None)"
  by (simp add: proxyDispatchBySaga_def)

text \<open>Before a store is registered, an invocation on the facade throws.\<close>

lemma facade_invoke_unregistered:
  "facade_invoke fac target p params None = (Inl TypeError, None)"
  by (cases p) (simp_all add: facade_invoke_def proxyDispatchBySaga_unregistered)

lemma logging_store_dispatch_once:
  "dispatch_once logging_store a = (Inr a, Some (logging_store\<lparr>store_state := [a]\<rparr>))"
  by (simp add: dispatch_once_def logging_store_def)



text \<open>
  C10, as amended. For every string key \<open>p\<close> for which the handler has no own property
  that is fixed (not configurable, and not writable or an accessor without getter), the
  access \<open>proxy[p]\<close> yields a forwarding function, and calling it (with a store
  registered) is one call of the store's \<open>dispatch\<close> with the tag \<open>Identity.p\<close> or
  \<open>Identity.p__SAGA\<close>, whatever operations \<open>fs\<close> and \<open>ps\<close> the handler has, \<open>p\<close> among them
  or not: the result does not depend on them, and no operation of the handler is called.
  The claim says so of every property key. A symbol key makes the call throw, and a
  fixed own property of the handler makes the access throw.
\<close>

theorem facade_forwards_string_key:
  assumes "\<not> get_invariant_broken (getOwnProperty (PString p))"
  shows "\<exists>forward.
     facade_get (fst (createReduxHandler addSagaHandler H pureByDefault registry))
         getOwnProperty (PString p) = Inr forward \<and>
     forward (H\<lparr>actionNames := a, enumerable_fields := fs, prototype_names := ps\<rparr>)
         params (Some store) =
       dispatch_once store
         \<lparr>type = (if pureByDefault \<or> p \<in> set (actionNames_values a)
                   then constructor_name H @ ''.'' @ p
                   else getSagaTypeNameByReducer (constructor_name H @ ''.'' @ p)),
          payload = first_param params\<rparr> \<and>
     facade_call (fst (createReduxHandler addSagaHandler H pureByDefault registry))
         getOwnProperty (H\<lparr>actionNames := a, enumerable_fields := fs, prototype_names := ps\<rparr>)
         (PString p) params (Some store) =
       forward (H\<lparr>actionNames := a, enumerable_fields := fs, prototype_names := ps\<rparr>)
         params (Some store)"
proof -
  let ?T = "H\<lparr>actionNames := a, enumerable_fields := fs, prototype_names := ps\<rparr>"
  let ?fac = "\<lparr>handlerName = constructor_name H, pureAction = pureByDefault\<rparr>"
  let ?forward = "\<lambda>target params DEFAULT_STORE.
     facade_invoke ?fac target (PString p) params DEFAULT_STORE"
  have fac: "fst (createReduxHandler addSagaHandler H pureByDefault registry) = ?fac"
    by (simp add: createReduxHandler_def)
  have access: "facade_get ?fac getOwnProperty (PString p) = Inr ?forward"
    using assms by (simp add: facade_get_def)
  have target: "actionNames ?T = a"
    by simp
  have "facade_invoke ?fac ?T (PString p) params (Some store) =
      proxyDispatchBySaga (constructor_name H @ ''.'' @ p) (first_param params)
        (pureByDefault \<or> p \<in> set (actionNames_values a)) (Some store)"
    unfolding facade_invoke_def target
    by (cases a) (simp_all add: actionNames_values_def scan_values_string)
  then have invoke: "?forward ?T params (Some store) =
      dispatch_once store
         \<lparr>type = (if pureByDefault \<or> p \<in> set (actionNames_values a)
                   then constructor_name H @ ''.'' @ p
                   else getSagaTypeNameByReducer (constructor_name H @ ''.'' @ p)),
          payload = first_param params\<rparr>"
    by (simp add: proxyDispatchBySaga_registered)
  have call: "facade_call ?fac getOwnProperty ?T (PString p) params (Some store) =
      ?forward ?T params (Some store)"
    by (simp add: facade_call_def access)
  from access invoke call show ?thesis
    unfolding fac by blast
qed

theorem facade_forwards_string_key_witness:
  "\<not> get_invariant_broken (plain_descriptors (PString ''then'')) \<and>
   facade_call (fst (createReduxHandler (\<lambda>h r. r) counter_handler False ())) plain_descriptors
       (counter_handler\<lparr>actionNames := None, enumerable_fields := [], prototype_names := []\<rparr>)
       (PString ''then'') [] (Some logging_store) =
     (Inr \<lparr>type = ''Counter.then__SAGA'', payload = Undefined\<rparr>,
      Some (logging_store\<lparr>store_state := [\<lparr>type = ''Counter.then__SAGA'', payload = Undefined\<rparr>]\<rparr>))"
proof -
  have h: "\<not> get_invariant_broken (plain_descriptors (PString ''then''))"
    by (simp add: plain_descriptors_def)
  from h facade_forwards_string_key[where getOwnProperty = plain_descriptors and p = "''then''"
      and addSagaHandler = "\<lambda>h r. r"
      and H = counter_handler and pureByDefault = False and registry = "()" and a = None
      and fs = "[]" and ps = "[]" and params = "[]" and store = logging_store]
  have "facade_call (fst (createReduxHandler (\<lambda>h r. r) counter_handler False ())) plain_descriptors
       (counter_handler\<lparr>actionNames := None, enumerable_fields := [], prototype_names := []\<rparr>)
       (PString ''then'') [] (Some logging_store) =
     (Inr \<lparr>type = ''Counter.then__SAGA'', payload = Undefined\<rparr>,
      Some (logging_store\<lparr>store_state := [\<lparr>type = ''Counter.then__SAGA'', payload = Undefined\<rparr>]\<rparr>))"
    by (auto simp add: logging_store_dispatch_once actionNames_values_def
        counter_handler_def getSagaTypeNameByReducer_def SAGA_ACTION_TYPE_SUFFIX_def
        first_param_def)
  with h show ?thesis by simp
qed

theorem facade_symbol_key_counterexample:
  "\<not> get_invariant_broken (plain_descriptors (PSymbol ''Symbol.iterator'')) \<and>
   facade_call (fst (createReduxHandler (\<lambda>h r. r) counter_handler True ())) plain_descriptors
       counter_handler (PSymbol ''Symbol.iterator'') [Num 5] (Some logging_store) =
     (Inl TypeError, Some logging_store) \<and>
   get_invariant_broken (frozen_descriptors (PString ''default'')) \<and>
   facade_call (fst (createReduxHandler (\<lambda>h r. r) counter_handler True ())) frozen_descriptors
       counter_handler (PString ''default'') [Num 5] (Some logging_store) =
     (Inl TypeError, Some logging_store)"
  by (simp add: facade_call_def facade_get_def facade_invoke_def createReduxHandler_def
      counter_handler_def plain_descriptors_def frozen_descriptors_def)

section \<open>Properties of the reducer synthesizer\<close>

lemma reducer_deferred:
  "endsWith (type a) SAGA_ACTION_TYPE_SUFFIX \<Longrightarrow>
   reducer rt d acts s a = Inr (state_or_default d s)"
  by (simp add: reducer_def state_or_default_def)

lemma reducer_unknown:
  "\<not> endsWith (type a) SAGA_ACTION_TYPE_SUFFIX \<Longrightarrow> acts (type a) = None \<Longrightarrow>
   Object_prototype rt (type a) = Undefined \<Longrightarrow>
   reducer rt d acts s a = Inr (state_or_default d s)"
  by (simp add: reducer_def state_or_default_def actions_get_def isUndefined_def)

lemma reducer_replace:
  "\<not> endsWith (type a) SAGA_ACTION_TYPE_SUFFIX \<Longrightarrow> acts (type a) = Some (Str USE_NEW_SATE) \<Longrightarrow>
   reducer rt d acts s a = Inr (payload a)"
  by (simp add: reducer_def actions_get_def isUndefined_def)

lemma reducer_callable:
  "\<not> endsWith (type a) SAGA_ACTION_TYPE_SUFFIX \<Longrightarrow> acts (type a) = Some (Fn f ps) \<Longrightarrow>
   reducer rt d acts s a = call rt f (state_or_default d s) (payload a)"
  by (simp add: reducer_def actions_get_def isUndefined_def state_or_default_def)

lemma take_length_iff: "(take (length xs) ys = xs) = (\<exists>zs. ys = xs @ zs)"
proof
  assume "take (length xs) ys = xs"
  then have "ys = xs @ drop (length xs) ys"
    by (metis append_take_drop_id)
  then show "\<exists>zs. ys = xs @ zs" ..
next
  assume "\<exists>zs. ys = xs @ zs"
  then show "take (length xs) ys = xs" by auto
qed

lemma map_set_keys: "\<exists>zs. map fst (map_set es k v) = map fst es @ zs"
  by (induction es k v rule: map_set.induct) auto

lemma map_set_entries: "set (map_set es k v) \<subseteq> insert (k, v) (set es)"
  by (induction es k v rule: map_set.induct) auto

lemma map_set_written: "(k, v) \<in> set (map_set es k v)"
  by (induction es k v rule: map_set.induct) auto

lemma map_set_others: "(g, w) \<in> set es \<Longrightarrow> g \<noteq> k \<Longrightarrow> (g, w) \<in> set (map_set es k v)"
  by (induction es k v rule: map_set.induct) auto

lemma keys_kept_keys:
  "keys_kept rt h m m' \<Longrightarrow> \<exists>zs. map fst (entries m') = map fst (entries m) @ zs"
  using take_length_iff[of "map fst (entries m)" "map fst (entries m')"]
  by (simp add: keys_kept_def)

lemma keys_kept_refl: "keys_kept rt h m m"
  by (auto simp: keys_kept_def)

lemma keys_kept_trans:
  assumes a: "keys_kept rt h m1 m2" and b: "keys_kept rt h m2 m3"
  shows "keys_kept rt h m1 m3"
proof -
  have id: "map_id m3 = map_id m1"
    using a b by (simp add: keys_kept_def)
  from keys_kept_keys[OF a] keys_kept_keys[OF b]
  have "\<exists>zs. map fst (entries m3) = map fst (entries m1) @ zs"
    by auto
  then have keys: "take (length (entries m1)) (map fst (entries m3)) = map fst (entries m1)"
    using take_length_iff[of "map fst (entries m1)" "map fst (entries m3)"] by simp
  have new: "\<forall>(g, key) \<in> set (entries m3). (g, key) \<in> set (entries m1) \<or> derived_entry rt h g key"
    using a b unfolding keys_kept_def by blast
  have old: "\<forall>(g, v) \<in> set (entries m1).
      (g, v) \<in> set (entries m3) \<or>
      (\<exists>(g', key) \<in> set (entries m3). g' = g \<and> derived_entry rt h g' key)"
  proof (intro ballI, clarify)
    fix g v
    assume in1: "(g, v) \<in> set (entries m1)"
      and none: "\<not> (\<exists>(g', key) \<in> set (entries m3). g' = g \<and> derived_entry rt h g' key)"
    from b have step: "\<And>w. (g, w) \<in> set (entries m2) \<Longrightarrow> (g, w) \<in> set (entries m3)"
      using none unfolding keys_kept_def by blast
    from a in1 consider "(g, v) \<in> set (entries m2)"
      | key where "(g, key) \<in> set (entries m2)" "derived_entry rt h g key"
      unfolding keys_kept_def by blast
    then show "(g, v) \<in> set (entries m3)"
    proof cases
      case 1
      then show ?thesis by (rule step)
    next
      case 2
      from step[OF 2(1)] 2(2) none show ?thesis by blast
    qed
  qed
  show ?thesis
    unfolding keys_kept_def using id keys new old by blast
qed

lemma derived_entry_frame [simp]:
  "derived_entry rt (h\<lparr>actionNames := x\<rparr>) = derived_entry rt h"
  by (simp add: derived_entry_def fun_eq_iff)

lemma keys_kept_frame [simp]:
  "keys_kept rt (h\<lparr>actionNames := x\<rparr>) = keys_kept rt h"
  by (simp add: keys_kept_def fun_eq_iff)

lemma keys_kept_set:
  assumes "startsWith key ''set''"
    and "convertFunctionNameByPrefix rt key \<in> set (prototype_chain_names h)"
  shows "keys_kept rt h m (m\<lparr>entries := map_set (entries m) (convertFunctionNameByPrefix rt key) key\<rparr>)"
proof -
  let ?g = "convertFunctionNameByPrefix rt key"
  let ?es = "map_set (entries m) ?g key"
  have d: "derived_entry rt h ?g key"
    using assms by (simp add: derived_entry_def)
  have keys: "take (length (entries m)) (map fst ?es) = map fst (entries m)"
    using take_length_iff[of "map fst (entries m)" "map fst ?es"] map_set_keys[of "entries m" ?g key]
    by simp
  have new: "\<forall>(g, k) \<in> set ?es. (g, k) \<in> set (entries m) \<or> derived_entry rt h g k"
    using map_set_entries[of "entries m" ?g key] d by auto
  have old: "\<forall>(g, v) \<in> set (entries m).
      (g, v) \<in> set ?es \<or> (\<exists>(g', k) \<in> set ?es. g' = g \<and> derived_entry rt h g' k)"
  proof (intro ballI, clarify)
    fix g v
    assume in1: "(g, v) \<in> set (entries m)"
      and none: "\<not> (\<exists>(g', k) \<in> set ?es. g' = g \<and> derived_entry rt h g' k)"
    from none d map_set_written[of ?g key "entries m"] have "g \<noteq> ?g"
      by blast
    with in1 show "(g, v) \<in> set ?es"
      by (rule map_set_others)
  qed
  show ?thesis
    unfolding keys_kept_def using keys new old by simp
qed

lemma addAction_result:
  assumes "actionNames h = Some m"
  shows "\<exists>m'. addAction rt acts name key v h =
            (Inr (acts(name @ ''.'' @ key \<mapsto> v)), h\<lparr>actionNames := Some m'\<rparr>) \<and>
          keys_kept rt h m m'"
proof (cases "startsWith key ''set'' \<and>
    convertFunctionNameByPrefix rt key \<in> set (prototype_chain_names h)")
  case True
  then show ?thesis
    using assms keys_kept_set[of key rt h m]
    by (auto simp: addAction_def Let_def)
next
  case False
  have same: "h\<lparr>actionNames := Some m\<rparr> = h"
    using assms by (cases h) simp
  from False have "addAction rt acts name key v h = (Inr (acts(name @ ''.'' @ key \<mapsto> v)), h)"
    by (auto simp: addAction_def Let_def)
  with same keys_kept_refl[of rt h m] show ?thesis
    by metis
qed

lemma forin_loop_result:
  assumes "actionNames h = Some m"
  shows "\<exists>acts' m'. forin_loop rt name fs acts h = (Inr acts', h\<lparr>actionNames := Some m'\<rparr>) \<and>
          keys_kept rt h m m' \<and>
          (\<forall>t. (\<forall>k \<in> fst ` set fs. t \<noteq> name @ ''.'' @ k) \<longrightarrow> acts' t = acts t)"
  using assms
proof (induction fs arbitrary: acts h m)
  case Nil
  have "h = h\<lparr>actionNames := Some m\<rparr>"
    using Nil by (cases h) simp
  then have "forin_loop rt name [] acts h = (Inr acts, h\<lparr>actionNames := Some m\<rparr>)"
    by simp
  then show ?case
    using keys_kept_refl[of rt h m] by blast
next
  case (Cons kv fs)
  obtain key v where kv: "kv = (key, v)" by (cases kv)
  show ?case
  proof (cases "key = ''actionNames'' \<or> key = ''default''")
    case True
    from Cons.IH[OF Cons.prems, of acts] obtain acts' m' where
      r: "forin_loop rt name fs acts h = (Inr acts', h\<lparr>actionNames := Some m'\<rparr>)"
      and a: "keys_kept rt h m m'"
      and d: "\<forall>t. (\<forall>k \<in> fst ` set fs. t \<noteq> name @ ''.'' @ k) \<longrightarrow> acts' t = acts t"
      by blast
    from True r have "forin_loop rt name (kv # fs) acts h = (Inr acts', h\<lparr>actionNames := Some m'\<rparr>)"
      by (simp add: kv)
    with a d show ?thesis by auto
  next
    case False
    from addAction_result[OF Cons.prems, of rt acts name key v] obtain m1 where
      add: "addAction rt acts name key v h =
              (Inr (acts(name @ ''.'' @ key \<mapsto> v)), h\<lparr>actionNames := Some m1\<rparr>)"
      and a1: "keys_kept rt h m m1"
      by blast
    let ?h1 = "h\<lparr>actionNames := Some m1\<rparr>"
    have "actionNames ?h1 = Some m1" by simp
    from Cons.IH[OF this, of "acts(name @ ''.'' @ key \<mapsto> v)"] obtain acts' m' where
      r: "forin_loop rt name fs (acts(name @ ''.'' @ key \<mapsto> v)) ?h1 =
            (Inr acts', ?h1\<lparr>actionNames := Some m'\<rparr>)"
      and a: "keys_kept rt ?h1 m1 m'"
      and d: "\<forall>t. (\<forall>k \<in> fst ` set fs. t \<noteq> name @ ''.'' @ k) \<longrightarrow>
                acts' t = (acts(name @ ''.'' @ key \<mapsto> v)) t"
      by blast
    from False add r have
      "forin_loop rt name (kv # fs) acts h = (Inr acts', h\<lparr>actionNames := Some m'\<rparr>)"
      by (simp add: kv)
    moreover from a1 a have "keys_kept rt h m m'"
      using keys_kept_trans by fastforce
    moreover from d have
      "\<forall>t. (\<forall>k \<in> fst ` set (kv # fs). t \<noteq> name @ ''.'' @ k) \<longrightarrow> acts' t = acts t"
      by (auto simp: kv)
    ultimately show ?thesis by blast
  qed
qed

lemma generator_shaped_skipped: "generator_shaped v \<Longrightarrow> skipped v"
  by (simp add: generator_shaped_def skipped_def)

lemma prototype_loop_state:
  assumes "actionNames h = Some m"
  shows "\<exists>r m'. prototype_loop rt name ps acts h = (r, h\<lparr>actionNames := Some m'\<rparr>) \<and>
          keys_kept rt h m m'"
  using assms
proof (induction ps arbitrary: acts h m)
  case Nil
  have "h = h\<lparr>actionNames := Some m\<rparr>"
    using Nil by (cases h) simp
  then have "prototype_loop rt name [] acts h = (Inr acts, h\<lparr>actionNames := Some m\<rparr>)"
    by simp
  then show ?case
    using keys_kept_refl[of rt h m] by blast
next
  case (Cons kv ps)
  obtain key v where kv: "kv = (key, v)" by (cases kv)
  have same: "h = h\<lparr>actionNames := Some m\<rparr>"
    using Cons.prems by (cases h) simp
  from Cons.IH[OF Cons.prems, of acts] obtain r0 m0 where
      skip: "prototype_loop rt name ps acts h = (r0, h\<lparr>actionNames := Some m0\<rparr>)"
      and a0: "keys_kept rt h m m0"
    by blast
  show ?case
  proof (cases "isNullOrUndefined v")
    case True
    then have "prototype_loop rt name (kv # ps) acts h = (r0, h\<lparr>actionNames := Some m0\<rparr>)"
      using skip by (simp add: kv)
    with a0 show ?thesis by blast
  next
    case False
    show ?thesis
    proof (cases "isGenerator (get_prop v ''prototype'')")
      case (Inl e)
      with False have "prototype_loop rt name (kv # ps) acts h = (Inl e, h)"
        by (simp add: kv)
      with same have "prototype_loop rt name (kv # ps) acts h = (Inl e, h\<lparr>actionNames := Some m\<rparr>)"
        by simp
      then show ?thesis
        using keys_kept_refl[of rt h m] by blast
    next
      case (Inr g)
      show ?thesis
      proof (cases "truthy g")
        case True
        with False Inr have
          "prototype_loop rt name (kv # ps) acts h = (r0, h\<lparr>actionNames := Some m0\<rparr>)"
          using skip by (simp add: kv)
        with a0 show ?thesis by blast
      next
        case g: False
        from addAction_result[OF Cons.prems, of rt acts name key v] obtain m1 where
          add: "addAction rt acts name key v h =
                  (Inr (acts(name @ ''.'' @ key \<mapsto> v)), h\<lparr>actionNames := Some m1\<rparr>)"
          and a1: "keys_kept rt h m m1"
          by blast
        let ?h1 = "h\<lparr>actionNames := Some m1\<rparr>"
        have "actionNames ?h1 = Some m1" by simp
        from Cons.IH[OF this, of "acts(name @ ''.'' @ key \<mapsto> v)"] obtain r m' where
          r: "prototype_loop rt name ps (acts(name @ ''.'' @ key \<mapsto> v)) ?h1 =
                (r, ?h1\<lparr>actionNames := Some m'\<rparr>)"
          and a: "keys_kept rt ?h1 m1 m'"
          by blast
        from False Inr g add r have
          "prototype_loop rt name (kv # ps) acts h = (r, h\<lparr>actionNames := Some m'\<rparr>)"
          by (simp add: kv)
        moreover from a1 a have "keys_kept rt h m m'"
          using keys_kept_trans by fastforce
        ultimately show ?thesis by blast
      qed
    qed
  qed
qed

lemma prototype_loop_table:
  assumes "actionNames h = Some m"
    and "\<forall>(key, handle) \<in> set ps. \<not> isl (isGenerator (get_prop handle ''prototype''))"
  shows "\<exists>acts' h'. prototype_loop rt name ps acts h = (Inr acts', h') \<and>
          (\<forall>t. (\<forall>(key, handle) \<in> set ps. t = name @ ''.'' @ key \<longrightarrow> skipped handle)
             \<longrightarrow> acts' t = acts t)"
  using assms
proof (induction ps arbitrary: acts h m)
  case Nil
  then show ?case by simp
next
  case (Cons kv ps)
  obtain key v where kv: "kv = (key, v)" by (cases kv)
  from Cons.prems(2) have safe: "\<forall>(key, handle) \<in> set ps. \<not> isl (isGenerator (get_prop handle ''prototype''))"
    and safe_v: "\<not> isl (isGenerator (get_prop v ''prototype''))"
    by (auto simp: kv)
  from safe_v obtain g where g: "isGenerator (get_prop v ''prototype'') = Inr g"
    by (cases "isGenerator (get_prop v ''prototype'')") auto
  show ?case
  proof (cases "isNullOrUndefined v \<or> truthy g")
    case True
    from Cons.IH[OF Cons.prems(1) safe, of acts] obtain acts' h' where
      r: "prototype_loop rt name ps acts h = (Inr acts', h')"
      and d: "\<forall>t. (\<forall>(key, handle) \<in> set ps. t = name @ ''.'' @ key \<longrightarrow> skipped handle)
             \<longrightarrow> acts' t = acts t"
      by blast
    from True g r have "prototype_loop rt name (kv # ps) acts h = (Inr acts', h')"
      by (auto simp: kv)
    with d show ?thesis by auto
  next
    case False
    then have ns: "\<not> skipped v"
      using g by (simp add: skipped_def)
    from addAction_result[OF Cons.prems(1), of rt acts name key v] obtain m1 where
      add: "addAction rt acts name key v h =
              (Inr (acts(name @ ''.'' @ key \<mapsto> v)), h\<lparr>actionNames := Some m1\<rparr>)"
      by blast
    let ?h1 = "h\<lparr>actionNames := Some m1\<rparr>"
    have "actionNames ?h1 = Some m1" by simp
    from Cons.IH[OF this safe, of "acts(name @ ''.'' @ key \<mapsto> v)"] obtain acts' h' where
      r: "prototype_loop rt name ps (acts(name @ ''.'' @ key \<mapsto> v)) ?h1 = (Inr acts', h')"
      and d: "\<forall>t. (\<forall>(key, handle) \<in> set ps. t = name @ ''.'' @ key \<longrightarrow> skipped handle)
             \<longrightarrow> acts' t = (acts(name @ ''.'' @ key \<mapsto> v)) t"
      by blast
    from False g add r have "prototype_loop rt name (kv # ps) acts h = (Inr acts', h')"
      by (simp add: kv)
    moreover from d ns have
      "\<forall>t. (\<forall>(key, handle) \<in> set (kv # ps). t = name @ ''.'' @ key \<longrightarrow> skipped handle)
             \<longrightarrow> acts' t = acts t"
      by (auto simp: kv)
    ultimately show ?thesis by blast
  qed
qed

lemma create_actions_unfold:
  "createReducerByHandler_actions rt H nid =
     (let h1 = H\<lparr>actionNames := Some (initialized H nid)\<rparr>;
          nid' = (if actionNames H = None then Suc nid else nid) in
      case forin_loop rt (constructor_name H) (enumerable_fields H) Map.empty h1 of
        (Inl e, h2) \<Rightarrow> (Inl e, h2, nid')
      | (Inr acts, h2) \<Rightarrow>
          (case prototype_loop rt (constructor_name H)
                  (filter (\<lambda>(key, handle). key \<noteq> ''constructor'') (prototype_names H)) acts h2 of
             (r, h3) \<Rightarrow> (r, h3, nid')))"
proof (cases "actionNames H")
  case None
  then show ?thesis
    by (simp add: createReducerByHandler_actions_def initialized_def Let_def
        cong: prod.case_cong sum.case_cong)
next
  case (Some m)
  then have same: "H\<lparr>actionNames := Some m\<rparr> = H"
    by (cases H) simp
  from Some show ?thesis
    by (simp add: createReducerByHandler_actions_def initialized_def Let_def same
        cong: prod.case_cong sum.case_cong)
qed

lemma create_actions_state:
  "\<exists>r m'. createReducerByHandler_actions rt H nid =
        (r, H\<lparr>actionNames := Some m'\<rparr>, (if actionNames H = None then Suc nid else nid)) \<and>
      keys_kept rt H (initialized H nid) m'"
proof -
  let ?h1 = "H\<lparr>actionNames := Some (initialized H nid)\<rparr>"
  have h1: "actionNames ?h1 = Some (initialized H nid)" by simp
  from forin_loop_result[OF h1, of rt "constructor_name H" "enumerable_fields H" Map.empty]
  obtain acts1 m1 where
    f: "forin_loop rt (constructor_name H) (enumerable_fields H) Map.empty ?h1 =
          (Inr acts1, ?h1\<lparr>actionNames := Some m1\<rparr>)"
    and a1: "keys_kept rt ?h1 (initialized H nid) m1"
    by blast
  let ?h2 = "?h1\<lparr>actionNames := Some m1\<rparr>"
  have h2: "actionNames ?h2 = Some m1" by simp
  from prototype_loop_state[OF h2, of rt "constructor_name H"
      "filter (\<lambda>(key, handle). key \<noteq> ''constructor'') (prototype_names H)" acts1]
  obtain r m2 where
    p: "prototype_loop rt (constructor_name H)
          (filter (\<lambda>(key, handle). key \<noteq> ''constructor'') (prototype_names H)) acts1 ?h2 =
          (r, ?h2\<lparr>actionNames := Some m2\<rparr>)"
    and a2: "keys_kept rt ?h2 m1 m2"
    by blast
  have "createReducerByHandler_actions rt H nid =
      (r, H\<lparr>actionNames := Some m2\<rparr>, (if actionNames H = None then Suc nid else nid))"
    unfolding create_actions_unfold using f p by (simp add: Let_def)
  moreover have "keys_kept rt H (initialized H nid) m2"
    using a1 a2 keys_kept_trans by fastforce
  ultimately show ?thesis by blast
qed

lemma create_actions_table:
  assumes "reflection_safe H"
  shows "\<exists>acts. fst (createReducerByHandler_actions rt H nid) = Inr acts \<and>
     (\<forall>t. (\<forall>k \<in> fst ` set (enumerable_fields H). t \<noteq> constructor_name H @ ''.'' @ k) \<and>
          (\<forall>(key, handle) \<in> set (prototype_names H).
              t = constructor_name H @ ''.'' @ key \<longrightarrow> skipped handle)
        \<longrightarrow> acts t = None)"
proof -
  let ?h1 = "H\<lparr>actionNames := Some (initialized H nid)\<rparr>"
  let ?ps = "filter (\<lambda>(key, handle). key \<noteq> ''constructor'') (prototype_names H)"
  have h1: "actionNames ?h1 = Some (initialized H nid)" by simp
  from forin_loop_result[OF h1, of rt "constructor_name H" "enumerable_fields H" Map.empty]
  obtain acts1 m1 where
    f: "forin_loop rt (constructor_name H) (enumerable_fields H) Map.empty ?h1 =
          (Inr acts1, ?h1\<lparr>actionNames := Some m1\<rparr>)"
    and d1: "\<forall>t. (\<forall>k \<in> fst ` set (enumerable_fields H). t \<noteq> constructor_name H @ ''.'' @ k)
               \<longrightarrow> acts1 t = Map.empty t"
    by blast
  let ?h2 = "?h1\<lparr>actionNames := Some m1\<rparr>"
  have h2: "actionNames ?h2 = Some m1" by simp
  have safe: "\<forall>(key, handle) \<in> set ?ps. \<not> isl (isGenerator (get_prop handle ''prototype''))"
    using assms by (auto simp: reflection_safe_def)
  from prototype_loop_table[OF h2 safe, of rt "constructor_name H" acts1]
  obtain acts2 h3 where
    p: "prototype_loop rt (constructor_name H) ?ps acts1 ?h2 = (Inr acts2, h3)"
    and d2: "\<forall>t. (\<forall>(key, handle) \<in> set ?ps. t = constructor_name H @ ''.'' @ key \<longrightarrow> skipped handle)
               \<longrightarrow> acts2 t = acts1 t"
    by blast
  have "fst (createReducerByHandler_actions rt H nid) = Inr acts2"
    unfolding create_actions_unfold using f p by (simp add: Let_def)
  moreover have "\<forall>t. (\<forall>k \<in> fst ` set (enumerable_fields H). t \<noteq> constructor_name H @ ''.'' @ k) \<and>
          (\<forall>(key, handle) \<in> set (prototype_names H).
              t = constructor_name H @ ''.'' @ key \<longrightarrow> skipped handle)
        \<longrightarrow> acts2 t = None"
  proof (intro allI impI)
    fix t
    assume c: "(\<forall>k \<in> fst ` set (enumerable_fields H). t \<noteq> constructor_name H @ ''.'' @ k) \<and>
          (\<forall>(key, handle) \<in> set (prototype_names H).
              t = constructor_name H @ ''.'' @ key \<longrightarrow> skipped handle)"
    then have "\<forall>(key, handle) \<in> set ?ps. t = constructor_name H @ ''.'' @ key \<longrightarrow> skipped handle"
      by auto
    with d2 have "acts2 t = acts1 t" by blast
    also from c d1 have "acts1 t = None" by simp
    finally show "acts2 t = None" .
  qed
  ultimately show ?thesis by blast
qed

lemma create_reducer_of_actions:
  "fst (createReducerByHandler_actions rt H nid) = Inr acts \<Longrightarrow>
   fst (createReducerByHandler rt H nid) = Inr (reducer rt (default' H) acts)"
  by (cases "createReducerByHandler_actions rt H nid")
     (auto simp add: createReducerByHandler_def)

lemma create_reducer_actions:
  assumes "fst (createReducerByHandler rt H nid) = Inr red"
  shows "\<exists>acts. fst (createReducerByHandler_actions rt H nid) = Inr acts \<and>
           red = reducer rt (default' H) acts"
proof (cases "createReducerByHandler_actions rt H nid")
  case (fields r h' nid')
  show ?thesis
  proof (cases r)
    case (Inl e)
    with fields assms show ?thesis
      by (simp add: createReducerByHandler_def)
  next
    case (Inr acts)
    with fields assms show ?thesis
      by (auto simp add: createReducerByHandler_def)
  qed
qed

subsection \<open>The concrete handlers, evaluated\<close>

lemma example_runtime_simps:
  "call example_runtime = example_call"
  "Object_prototype example_runtime = example_Object_prototype"
  "convertFunctionNameByPrefix example_runtime = convertFunctionNameByPrefix_spec"
  by (simp_all add: example_runtime_def)

lemma convert_setCount: "convertFunctionNameByPrefix_spec ''setCount'' = ''count''"
  by code_simp

lemmas reflect_simps =
  isGenerator_def isNullOrUndefined_def plain_function_def generator_function_def Let_def

lemma example_handler_actions:
  "createReducerByHandler_actions example_runtime example_handler nid =
     (Inr example_table,
      example_handler\<lparr>actionNames := Some \<lparr>map_id = nid, entries = []\<rparr>\<rparr>, Suc nid)"
  by (simp add: createReducerByHandler_actions_def example_handler_def example_table_def
      addAction_def startsWith_def reflect_simps example_runtime_simps convert_setCount)

lemma example_handler_reducer:
  "fst (createReducerByHandler example_runtime example_handler nid) =
     Inr (reducer example_runtime (Num 0) example_table)"
  using create_reducer_of_actions[of example_runtime example_handler nid example_table]
  by (simp add: example_handler_actions) (simp add: example_handler_def)

lemma example_transition:
  "transition example_runtime example_handler nid s a =
     reducer example_runtime (Num 0) example_table s a"
  by (simp add: transition_def example_handler_reducer)

lemma example_lookup:
  "table_lookup example_runtime example_handler nid tag = Inr (example_table tag)"
  by (simp add: table_lookup_def example_handler_actions)

lemma field_generator_handler_actions:
  "createReducerByHandler_actions example_runtime field_generator_handler nid =
     (Inr field_generator_table,
      field_generator_handler\<lparr>actionNames := Some \<lparr>map_id = nid, entries = []\<rparr>\<rparr>, Suc nid)"
  by (simp add: createReducerByHandler_actions_def field_generator_handler_def
      field_generator_table_def addAction_def startsWith_def reflect_simps)

lemma field_generator_transition:
  "transition example_runtime field_generator_handler nid s a =
     reducer example_runtime (Num 0) field_generator_table s a"
  using create_reducer_of_actions[of example_runtime field_generator_handler nid
      field_generator_table]
  by (simp add: transition_def field_generator_handler_actions)
     (simp add: field_generator_handler_def)

lemmas reducer_eval =
  reducer_def endsWith_def SAGA_ACTION_TYPE_SUFFIX_def actions_get_def example_table_def
  field_generator_table_def isUndefined_def plain_function_def generator_function_def
  USE_NEW_SATE_def example_runtime_simps example_Object_prototype_def state_or_default_def

subsection \<open>The transition function\<close>

text \<open>
  C2, as amended. When \<open>createReducerByHandler\<close> returns \<open>red\<close> and the table maps the
  tag of a message to a function \<open>f\<close>, and the tag does not end with \<open>__SAGA\<close>, then
  \<open>red s a\<close> is \<open>f(s', payload)\<close>, where \<open>s'\<close> is \<open>s\<close>, or the handler's default state when
  \<open>s\<close> is \<open>undefined\<close>. The claim has \<open>f(s, payload)\<close> for every \<open>s\<close>.
\<close>

theorem reducer_calls_operation:
  assumes "fst (createReducerByHandler rt H nid) = Inr red"
    and "table_lookup rt H nid (type a) = Inr (Some (Fn f ps))"
    and "\<not> endsWith (type a) SAGA_ACTION_TYPE_SUFFIX"
  shows "red s a = call rt f (state_or_default (default' H) s) (payload a)"
proof -
  from assms(1) obtain acts where
    acts: "fst (createReducerByHandler_actions rt H nid) = Inr acts"
    and red: "red = reducer rt (default' H) acts"
    using create_reducer_actions by blast
  from acts assms(2) have "acts (type a) = Some (Fn f ps)"
    by (simp add: table_lookup_def)
  with assms(3) show ?thesis
    unfolding red by (rule reducer_callable)
qed

theorem reducer_calls_operation_witness:
  "fst (createReducerByHandler example_runtime example_handler 0) =
     Inr (reducer example_runtime (Num 0) example_table) \<and>
   table_lookup example_runtime example_handler 0 ''H.setCount'' =
     Inr (Some (Fn ReturnPayload
       [(''prototype'',
         Obj [(''__proto__'', Obj [(''constructor'', Fn ClassConstructor [(''name'', Str ''Object'')])])])])) \<and>
   \<not> endsWith ''H.setCount'' SAGA_ACTION_TYPE_SUFFIX \<and>
   transition example_runtime example_handler 0 (Num 3)
     \<lparr>type = ''H.setCount'', payload = Num 5\<rparr> = Inr (Num 5)"
proof -
  let ?a = "\<lparr>type = ''H.setCount'', payload = Num 5\<rparr> :: example_code ReduxAction"
  have l: "table_lookup example_runtime example_handler 0 (type ?a) =
     Inr (Some (Fn ReturnPayload
       [(''prototype'',
         Obj [(''__proto__'', Obj [(''constructor'', Fn ClassConstructor [(''name'', Str ''Object'')])])])]))"
    by (simp add: example_lookup example_table_def plain_function_def)
  have e: "\<not> endsWith (type ?a) SAGA_ACTION_TYPE_SUFFIX"
    by (simp add: endsWith_def SAGA_ACTION_TYPE_SUFFIX_def)
  from reducer_calls_operation[OF example_handler_reducer l e, of "Num 3"]
  have "transition example_runtime example_handler 0 (Num 3) ?a = Inr (Num 5)"
    by (simp add: transition_def example_handler_reducer example_runtime_simps
        state_or_default_def)
  with l e example_handler_reducer[of 0] show ?thesis by simp
qed

theorem reducer_calls_operation_counterexample:
  "table_lookup example_runtime example_handler 0 ''H.keep'' =
     Inr (Some (plain_function ReturnState)) \<and>
   \<not> endsWith ''H.keep'' SAGA_ACTION_TYPE_SUFFIX \<and>
   transition example_runtime example_handler 0 Undefined
     \<lparr>type = ''H.keep'', payload = Num 5\<rparr> = Inr (Num 0) \<and>
   call example_runtime ReturnState Undefined (Num 5) = Inr Undefined \<and>
   transition example_runtime example_handler 0 Undefined
     \<lparr>type = ''H.keep'', payload = Num 5\<rparr> \<noteq> call example_runtime ReturnState Undefined (Num 5)"
  by (simp add: example_lookup example_transition reducer_eval)

text \<open>
  C3. When \<open>createReducerByHandler\<close> returns \<open>red\<close> and the table maps the tag of a
  message to the sentinel \<open>USE_NEW_SATE\<close>, and the tag does not end with \<open>__SAGA\<close>, then
  \<open>red s a\<close> is the payload of the message, whatever the state \<open>s\<close> was.
\<close>

theorem reducer_replaces_state:
  assumes "fst (createReducerByHandler rt H nid) = Inr red"
    and "table_lookup rt H nid (type a) = Inr (Some (Str USE_NEW_SATE))"
    and "\<not> endsWith (type a) SAGA_ACTION_TYPE_SUFFIX"
  shows "red s a = Inr (payload a)"
proof -
  from assms(1) obtain acts where
    acts: "fst (createReducerByHandler_actions rt H nid) = Inr acts"
    and red: "red = reducer rt (default' H) acts"
    using create_reducer_actions by blast
  from acts assms(2) have "acts (type a) = Some (Str USE_NEW_SATE)"
    by (simp add: table_lookup_def)
  with assms(3) show ?thesis
    unfolding red by (rule reducer_replace)
qed

theorem reducer_replaces_state_witness:
  "fst (createReducerByHandler example_runtime example_handler 0) =
     Inr (reducer example_runtime (Num 0) example_table) \<and>
   table_lookup example_runtime example_handler 0 ''H.reset'' = Inr (Some (Str USE_NEW_SATE)) \<and>
   \<not> endsWith ''H.reset'' SAGA_ACTION_TYPE_SUFFIX \<and>
   transition example_runtime example_handler 0 (Num 3)
     \<lparr>type = ''H.reset'', payload = Obj [(''x'', Num 1)]\<rparr> = Inr (Obj [(''x'', Num 1)])"
proof -
  let ?a = "\<lparr>type = ''H.reset'', payload = Obj [(''x'', Num 1)]\<rparr> :: example_code ReduxAction"
  have l: "table_lookup example_runtime example_handler 0 (type ?a) = Inr (Some (Str USE_NEW_SATE))"
    by (simp add: example_lookup example_table_def)
  have e: "\<not> endsWith (type ?a) SAGA_ACTION_TYPE_SUFFIX"
    by (simp add: endsWith_def SAGA_ACTION_TYPE_SUFFIX_def)
  from reducer_replaces_state[OF example_handler_reducer l e, of "Num 3"]
  have "transition example_runtime example_handler 0 (Num 3) ?a = Inr (Obj [(''x'', Num 1)])"
    by (simp add: transition_def example_handler_reducer)
  with l e example_handler_reducer[of 0] show ?thesis by simp
qed

text \<open>
  C4, as amended. When \<open>createReducerByHandler\<close> returns \<open>red\<close> and the tag of a message
  ends with \<open>__SAGA\<close>, then \<open>red s a\<close> is \<open>s\<close>, or the handler's default state when \<open>s\<close> is
  \<open>undefined\<close>, whatever the table holds. The claim has \<open>s\<close> for every \<open>s\<close>.
\<close>

theorem reducer_ignores_deferred:
  assumes "fst (createReducerByHandler rt H nid) = Inr red"
    and "endsWith (type a) SAGA_ACTION_TYPE_SUFFIX"
  shows "red s a = Inr (state_or_default (default' H) s)"
proof -
  from assms(1) obtain acts where red: "red = reducer rt (default' H) acts"
    using create_reducer_actions by blast
  from assms(2) show ?thesis
    unfolding red by (rule reducer_deferred)
qed

theorem reducer_ignores_deferred_witness:
  "fst (createReducerByHandler example_runtime example_handler 0) =
     Inr (reducer example_runtime (Num 0) example_table) \<and>
   endsWith ''H.fetchData__SAGA'' SAGA_ACTION_TYPE_SUFFIX \<and>
   transition example_runtime example_handler 0 (Num 3)
     \<lparr>type = ''H.fetchData__SAGA'', payload = Null\<rparr> = Inr (Num 3) \<and>
   transition example_runtime example_handler 0 (Num 3)
     \<lparr>type = ''H.setCount__SAGA'', payload = Num 5\<rparr> = Inr (Num 3)"
proof -
  let ?a = "\<lparr>type = ''H.fetchData__SAGA'', payload = Null\<rparr> :: example_code ReduxAction"
  let ?b = "\<lparr>type = ''H.setCount__SAGA'', payload = Num 5\<rparr> :: example_code ReduxAction"
  have ea: "endsWith (type ?a) SAGA_ACTION_TYPE_SUFFIX"
    and eb: "endsWith (type ?b) SAGA_ACTION_TYPE_SUFFIX"
    by (simp_all add: endsWith_def SAGA_ACTION_TYPE_SUFFIX_def)
  from reducer_ignores_deferred[OF example_handler_reducer ea, of "Num 3"]
    reducer_ignores_deferred[OF example_handler_reducer eb, of "Num 3"]
  have "transition example_runtime example_handler 0 (Num 3) ?a = Inr (Num 3)"
    and "transition example_runtime example_handler 0 (Num 3) ?b = Inr (Num 3)"
    by (simp_all add: transition_def example_handler_reducer state_or_default_def)
  with ea example_handler_reducer[of 0] show ?thesis by simp
qed

theorem reducer_ignores_deferred_counterexample:
  "endsWith ''H.fetchData__SAGA'' SAGA_ACTION_TYPE_SUFFIX \<and>
   transition example_runtime example_handler 0 Undefined
     \<lparr>type = ''H.fetchData__SAGA'', payload = Null\<rparr> = Inr (Num 0) \<and>
   transition example_runtime example_handler 0 Undefined
     \<lparr>type = ''H.fetchData__SAGA'', payload = Null\<rparr> \<noteq> Inr Undefined"
  by (simp add: example_transition reducer_eval)

text \<open>
  C5, as amended. When \<open>createReducerByHandler\<close> returns \<open>red\<close>, the tag of a message does
  not end with \<open>__SAGA\<close>, the table has no entry for it and it is not the name of a
  property that the table inherits from \<open>Object.prototype\<close>, then \<open>red s a\<close> returns (it
  does not throw) \<open>s\<close>, or the handler's default state when \<open>s\<close> is \<open>undefined\<close>. The claim
  has \<open>s\<close> for every \<open>s\<close> and every tag the table has no entry for.
\<close>

theorem reducer_unknown_tag:
  assumes "fst (createReducerByHandler rt H nid) = Inr red"
    and "table_lookup rt H nid (type a) = Inr None"
    and "Object_prototype rt (type a) = Undefined"
    and "\<not> endsWith (type a) SAGA_ACTION_TYPE_SUFFIX"
  shows "red s a = Inr (state_or_default (default' H) s)"
proof -
  from assms(1) obtain acts where
    acts: "fst (createReducerByHandler_actions rt H nid) = Inr acts"
    and red: "red = reducer rt (default' H) acts"
    using create_reducer_actions by blast
  from acts assms(2) have "acts (type a) = None"
    by (simp add: table_lookup_def)
  with assms(3,4) show ?thesis
    unfolding red by (simp add: reducer_unknown)
qed

theorem reducer_unknown_tag_witness:
  "fst (createReducerByHandler example_runtime example_handler 0) =
     Inr (reducer example_runtime (Num 0) example_table) \<and>
   table_lookup example_runtime example_handler 0 ''H.unknown'' = Inr None \<and>
   Object_prototype example_runtime ''H.unknown'' = Undefined \<and>
   \<not> endsWith ''H.unknown'' SAGA_ACTION_TYPE_SUFFIX \<and>
   transition example_runtime example_handler 0 (Num 3)
     \<lparr>type = ''H.unknown'', payload = Num 1\<rparr> = Inr (Num 3)"
proof -
  let ?a = "\<lparr>type = ''H.unknown'', payload = Num 1\<rparr> :: example_code ReduxAction"
  have l: "table_lookup example_runtime example_handler 0 (type ?a) = Inr None"
    by (simp add: example_lookup example_table_def)
  have p: "Object_prototype example_runtime (type ?a) = Undefined"
    by (simp add: example_runtime_simps example_Object_prototype_def)
  have e: "\<not> endsWith (type ?a) SAGA_ACTION_TYPE_SUFFIX"
    by (simp add: endsWith_def SAGA_ACTION_TYPE_SUFFIX_def)
  from reducer_unknown_tag[OF example_handler_reducer l p e, of "Num 3"]
  have "transition example_runtime example_handler 0 (Num 3) ?a = Inr (Num 3)"
    by (simp add: transition_def example_handler_reducer state_or_default_def)
  with l p e example_handler_reducer[of 0] show ?thesis by simp
qed

theorem reducer_unknown_tag_counterexample:
  "table_lookup example_runtime example_handler 0 ''H.unknown'' = Inr None \<and>
   \<not> endsWith ''H.unknown'' SAGA_ACTION_TYPE_SUFFIX \<and>
   transition example_runtime example_handler 0 Undefined
     \<lparr>type = ''H.unknown'', payload = Num 1\<rparr> = Inr (Num 0) \<and>
   transition example_runtime example_handler 0 Undefined
     \<lparr>type = ''H.unknown'', payload = Num 1\<rparr> \<noteq> Inr Undefined \<and>
   table_lookup example_runtime example_handler 0 ''__proto__'' = Inr None \<and>
   \<not> endsWith ''__proto__'' SAGA_ACTION_TYPE_SUFFIX \<and>
   transition example_runtime example_handler 0 (Num 3)
     \<lparr>type = ''__proto__'', payload = Num 1\<rparr> = Inr (Obj [(''hasOwnProperty'', Fn HasOwnProperty [])])"
  by (simp add: example_lookup example_transition reducer_eval)

subsection \<open>Generator operations\<close>

text \<open>
  C8, as amended. Let \<open>key\<close> be an own property name of the handler's prototype whose
  value is generator-shaped, and let \<open>for (const key in handler)\<close> not enumerate \<open>key\<close>.
  When no value on the prototype makes \<open>isGenerator\<close> throw, \<open>createReducerByHandler\<close>
  returns a reducer, the table has no entry for \<open>Identity(H).key\<close>, and (the tag not
  being a property inherited from \<open>Object.prototype\<close>) the reducer returns \<open>s\<close> for a
  message with that tag, or the handler's default state when \<open>s\<close> is \<open>undefined\<close>. The
  claim has this for own enumerable fields as well, and has \<open>s\<close> for every \<open>s\<close>.
\<close>

theorem generator_operation_omitted:
  assumes "reflection_safe H"
    and "distinct (map fst (prototype_names H))"
    and "(key, handle) \<in> set (prototype_names H)"
    and "generator_shaped handle"
    and "key \<notin> fst ` set (enumerable_fields H)"
    and "Object_prototype rt (constructor_name H @ ''.'' @ key) = Undefined"
  shows "\<exists>red. fst (createReducerByHandler rt H nid) = Inr red \<and>
          table_lookup rt H nid (constructor_name H @ ''.'' @ key) = Inr None \<and>
          red s \<lparr>type = constructor_name H @ ''.'' @ key, payload = p\<rparr> =
            Inr (state_or_default (default' H) s)"
proof -
  let ?tag = "constructor_name H @ ''.'' @ key"
  let ?a = "\<lparr>type = ?tag, payload = p\<rparr>"
  from create_actions_table[OF assms(1), of rt nid] obtain acts where
    acts: "fst (createReducerByHandler_actions rt H nid) = Inr acts"
    and absent: "\<forall>t. (\<forall>k \<in> fst ` set (enumerable_fields H). t \<noteq> constructor_name H @ ''.'' @ k) \<and>
          (\<forall>(k, v) \<in> set (prototype_names H). t = constructor_name H @ ''.'' @ k \<longrightarrow> skipped v)
        \<longrightarrow> acts t = None"
    by blast
  have fields: "\<forall>k \<in> fst ` set (enumerable_fields H). ?tag \<noteq> constructor_name H @ ''.'' @ k"
    using assms(5) by auto
  have skip: "skipped v"
    if kv: "(k, v) \<in> set (prototype_names H)" and eq: "?tag = constructor_name H @ ''.'' @ k"
    for k v
  proof -
    from eq have "k = key" by simp
    with kv assms(2,3) have "v = handle"
      using eq_key_imp_eq_value by fastforce
    with assms(4) show "skipped v"
      by (simp add: generator_shaped_skipped)
  qed
  then have methods:
    "\<forall>(k, v) \<in> set (prototype_names H). ?tag = constructor_name H @ ''.'' @ k \<longrightarrow> skipped v"
    by blast
  from absent fields methods have none: "acts ?tag = None"
    by blast
  from acts have red: "fst (createReducerByHandler rt H nid) = Inr (reducer rt (default' H) acts)"
    by (rule create_reducer_of_actions)
  from acts none have lookup: "table_lookup rt H nid ?tag = Inr None"
    by (simp add: table_lookup_def)
  have "reducer rt (default' H) acts s ?a = Inr (state_or_default (default' H) s)"
  proof (cases "endsWith ?tag SAGA_ACTION_TYPE_SUFFIX")
    case True
    then show ?thesis
      by (simp add: reducer_deferred)
  next
    case False
    with none assms(6) show ?thesis
      by (simp add: reducer_unknown)
  qed
  with red lookup show ?thesis
    by blast
qed

theorem generator_operation_omitted_witness:
  "reflection_safe example_handler \<and>
   distinct (map fst (prototype_names example_handler)) \<and>
   (''fetchData'', generator_function) \<in> set (prototype_names example_handler) \<and>
   generator_shaped generator_function \<and>
   ''fetchData'' \<notin> fst ` set (enumerable_fields example_handler) \<and>
   Object_prototype example_runtime ''H.fetchData'' = Undefined \<and>
   table_lookup example_runtime example_handler 0 ''H.fetchData'' = Inr None \<and>
   transition example_runtime example_handler 0 (Num 3)
     \<lparr>type = ''H.fetchData'', payload = Null\<rparr> = Inr (Num 3)"
proof -
  have h1: "reflection_safe example_handler"
    by (simp add: reflection_safe_def example_handler_def reflect_simps)
  have h2: "distinct (map fst (prototype_names example_handler))"
    by (simp add: example_handler_def)
  have h3: "(''fetchData'', generator_function) \<in> set (prototype_names example_handler)"
    by (simp add: example_handler_def)
  have h4: "generator_shaped generator_function"
    by (simp add: generator_shaped_def reflect_simps)
  have h5: "''fetchData'' \<notin> fst ` set (enumerable_fields example_handler)"
    by (simp add: example_handler_def)
  have name: "constructor_name example_handler = ''H''"
    by (simp add: example_handler_def)
  have h6: "Object_prototype example_runtime (constructor_name example_handler @ ''.'' @ ''fetchData'') = Undefined"
    by (simp add: name example_runtime_simps example_Object_prototype_def)
  from generator_operation_omitted[OF h1 h2 h3 h4 h5 h6, of 0 "Num 3" Null]
  obtain red where
    red: "fst (createReducerByHandler example_runtime example_handler 0) = Inr red"
    and lookup: "table_lookup example_runtime example_handler 0 ''H.fetchData'' = Inr None"
    and res: "red (Num 3) \<lparr>type = ''H.fetchData'', payload = Null\<rparr> =
      Inr (state_or_default (default' example_handler) (Num 3))"
    by (auto simp add: name)
  from red res have
    "transition example_runtime example_handler 0 (Num 3)
       \<lparr>type = ''H.fetchData'', payload = Null\<rparr> = Inr (Num 3)"
    by (simp add: transition_def state_or_default_def)
  with h1 h2 h3 h4 h5 h6 lookup show ?thesis
    by (simp add: name)
qed

theorem generator_operation_omitted_counterexample:
  "(''fetchData'', generator_function) \<in> set (enumerable_fields field_generator_handler) \<and>
   generator_shaped generator_function \<and>
   table_lookup example_runtime field_generator_handler 0 ''G.fetchData'' =
     Inr (Some generator_function) \<and>
   transition example_runtime field_generator_handler 0 (Num 3)
     \<lparr>type = ''G.fetchData'', payload = Null\<rparr> = Inr (Obj []) \<and>
   transition example_runtime field_generator_handler 0 (Num 3)
     \<lparr>type = ''G.fetchData'', payload = Null\<rparr> \<noteq> Inr (Num 3) \<and>
   (''fetchData'', generator_function) \<in> set (prototype_names example_handler) \<and>
   transition example_runtime example_handler 0 Undefined
     \<lparr>type = ''H.fetchData'', payload = Null\<rparr> = Inr (Num 0) \<and>
   transition example_runtime example_handler 0 Undefined
     \<lparr>type = ''H.fetchData'', payload = Null\<rparr> \<noteq> Inr Undefined"
proof -
  have "generator_shaped generator_function"
    by (simp add: generator_shaped_def reflect_simps)
  moreover have "table_lookup example_runtime field_generator_handler 0 ''G.fetchData'' =
     Inr (Some generator_function)"
    by (simp add: table_lookup_def field_generator_handler_actions field_generator_table_def)
  moreover have "transition example_runtime field_generator_handler 0 (Num 3)
     \<lparr>type = ''G.fetchData'', payload = Null\<rparr> = Inr (Obj [])"
    by (simp add: field_generator_transition reducer_eval)
  moreover have "transition example_runtime example_handler 0 Undefined
     \<lparr>type = ''H.fetchData'', payload = Null\<rparr> = Inr (Num 0)"
    by (simp add: example_transition reducer_eval)
  ultimately show ?thesis
    by (simp add: field_generator_handler_def example_handler_def)
qed

subsection \<open>The classification metadata\<close>

lemma create_reducer_state:
  "\<exists>r m'. createReducerByHandler rt H nid =
        (r, H\<lparr>actionNames := Some m'\<rparr>, (if actionNames H = None then Suc nid else nid)) \<and>
      keys_kept rt H (initialized H nid) m'"
proof -
  from create_actions_state[of rt H nid] obtain r m' where
    c: "createReducerByHandler_actions rt H nid =
        (r, H\<lparr>actionNames := Some m'\<rparr>, (if actionNames H = None then Suc nid else nid))"
    and a: "keys_kept rt H (initialized H nid) m'"
    by blast
  from c have "\<exists>r'. createReducerByHandler rt H nid =
        (r', H\<lparr>actionNames := Some m'\<rparr>, (if actionNames H = None then Suc nid else nid))"
    by (cases r) (simp_all add: createReducerByHandler_def)
  with a show ?thesis by blast
qed

lemma times_keeps_map:
  assumes "actionNames H = Some m"
  shows "\<exists>m'. createReducerByHandler_times rt n H nid = (H\<lparr>actionNames := Some m'\<rparr>, nid) \<and>
           keys_kept rt H m m'"
  using assms
proof (induction n arbitrary: H m)
  case 0
  have "H = H\<lparr>actionNames := Some m\<rparr>"
    using 0 by (cases H) simp
  then have "createReducerByHandler_times rt 0 H nid = (H\<lparr>actionNames := Some m\<rparr>, nid)"
    by simp
  then show ?case
    using keys_kept_refl[of rt H m] by blast
next
  case (Suc n)
  from create_reducer_state[of rt H nid] Suc.prems obtain r m1 where
    c: "createReducerByHandler rt H nid = (r, H\<lparr>actionNames := Some m1\<rparr>, nid)"
    and a1: "keys_kept rt H m m1"
    by (auto simp: initialized_def)
  let ?H1 = "H\<lparr>actionNames := Some m1\<rparr>"
  have "actionNames ?H1 = Some m1" by simp
  from Suc.IH[OF this] obtain m' where
    t: "createReducerByHandler_times rt n ?H1 nid = (?H1\<lparr>actionNames := Some m'\<rparr>, nid)"
    and a: "keys_kept rt ?H1 m1 m'"
    by blast
  from c t have "createReducerByHandler_times rt (Suc n) H nid = (H\<lparr>actionNames := Some m'\<rparr>, nid)"
    by simp
  moreover from a1 a have "keys_kept rt H m m'"
    using keys_kept_trans by fastforce
  ultimately show ?case by blast
qed

text \<open>
  C9, as amended. Over one or more calls of \<open>createReducerByHandler\<close> on a handler: when
  \<open>actionNames\<close> is a map \<open>m\<close> at the start, no map is created and the field holds \<open>m\<close> at
  the end (the same identity); when it is \<open>null\<close> or \<open>undefined\<close>, one map is created, by
  the first call, and the field holds that map at the end. The map is only written by
  \<open>set\<close>, with the getter name derived from a setter as key and that setter as value: no
  key is ever removed, a new key is added after the others, the value of a key that is
  present is overwritten, and no other field of the handler changes. The claim has every
  operation only add entries.
\<close>

theorem actionNames_never_replaced:
  "\<exists>m'. keys_kept rt H (initialized H next_id) m' \<and>
     (case actionNames H of
        None \<Rightarrow>
          map_id m' = next_id \<and>
          createReducerByHandler_times rt (Suc n) H next_id =
            (H\<lparr>actionNames := Some m'\<rparr>, Suc next_id)
      | Some m \<Rightarrow>
          map_id m' = map_id m \<and>
          createReducerByHandler_times rt (Suc n) H next_id =
            (H\<lparr>actionNames := Some m'\<rparr>, next_id))"
proof -
  let ?next = "if actionNames H = None then Suc next_id else next_id"
  from create_reducer_state[of rt H next_id] obtain r m1 where
    first: "createReducerByHandler rt H next_id = (r, H\<lparr>actionNames := Some m1\<rparr>, ?next)"
    and a1: "keys_kept rt H (initialized H next_id) m1"
    by blast
  let ?H1 = "H\<lparr>actionNames := Some m1\<rparr>"
  have "actionNames ?H1 = Some m1" by simp
  from times_keeps_map[OF this, of rt n ?next] obtain m' where
    rest: "createReducerByHandler_times rt n ?H1 ?next = (?H1\<lparr>actionNames := Some m'\<rparr>, ?next)"
    and a: "keys_kept rt ?H1 m1 m'"
    by blast
  from first rest have all:
    "createReducerByHandler_times rt (Suc n) H next_id = (H\<lparr>actionNames := Some m'\<rparr>, ?next)"
    by simp
  from a1 a have app: "keys_kept rt H (initialized H next_id) m'"
    using keys_kept_trans by fastforce
  then have id: "map_id m' = map_id (initialized H next_id)"
    by (simp add: keys_kept_def)
  show ?thesis
  proof (cases "actionNames H")
    case None
    with all app id show ?thesis
      by (auto simp: initialized_def)
  next
    case (Some m)
    with all app id show ?thesis
      by (auto simp: initialized_def)
  qed
qed

lemma counter_handler_times:
  "createReducerByHandler_times example_runtime (Suc (Suc 0)) counter_handler 7 =
     (counter_handler\<lparr>actionNames := Some \<lparr>map_id = 7, entries = [(''count'', ''setCount'')]\<rparr>\<rparr>, 8)"
  by (simp add: createReducerByHandler_def createReducerByHandler_actions_def
      counter_handler_def addAction_def startsWith_def reflect_simps example_runtime_simps
      convert_setCount)

theorem actionNames_never_replaced_witness:
  "actionNames counter_handler = None \<and>
   createReducerByHandler_times example_runtime (Suc (Suc 0)) counter_handler 7 =
     (counter_handler\<lparr>actionNames := Some \<lparr>map_id = 7, entries = [(''count'', ''setCount'')]\<rparr>\<rparr>, 8) \<and>
   keys_kept example_runtime counter_handler \<lparr>map_id = 7, entries = []\<rparr>
     \<lparr>map_id = 7, entries = [(''count'', ''setCount'')]\<rparr>"
proof -
  have none: "actionNames counter_handler = None"
    by (simp add: counter_handler_def)
  from actionNames_never_replaced[of example_runtime counter_handler 7 "Suc 0"] none
  obtain m' where
    app: "keys_kept example_runtime counter_handler \<lparr>map_id = 7, entries = []\<rparr> m'"
    and t: "createReducerByHandler_times example_runtime (Suc (Suc 0)) counter_handler 7 =
              (counter_handler\<lparr>actionNames := Some m'\<rparr>, Suc 7)"
    by (auto simp: initialized_def)
  from trans[OF counter_handler_times[symmetric] t] have
    "actionNames (fst (counter_handler\<lparr>actionNames :=
        Some \<lparr>map_id = 7, entries = [(''count'', ''setCount'')]\<rparr>\<rparr>, 8::nat)) =
     actionNames (fst (counter_handler\<lparr>actionNames := Some m'\<rparr>, Suc 7))"
    by (rule arg_cong)
  then have "m' = \<lparr>map_id = 7, entries = [(''count'', ''setCount'')]\<rparr>"
    by simp
  with app have "keys_kept example_runtime counter_handler \<lparr>map_id = 7, entries = []\<rparr>
     \<lparr>map_id = 7, entries = [(''count'', ''setCount'')]\<rparr>"
    by simp
  with none counter_handler_times show ?thesis
    by blast
qed

lemma convert_setcount: "convertFunctionNameByPrefix_spec ''setcount'' = ''count''"
  by code_simp

theorem actionNames_overwritten_counterexample:
  "actionNames preset_handler = Some \<lparr>map_id = 3, entries = [(''count'', ''old'')]\<rparr> \<and>
   createReducerByHandler_times example_runtime (Suc 0) preset_handler 7 =
     (preset_handler\<lparr>actionNames := Some \<lparr>map_id = 3, entries = [(''count'', ''setCount'')]\<rparr>\<rparr>, 7) \<and>
   (''count'', ''old'') \<notin> set [(''count'', ''setCount'')] \<and>
   createReducerByHandler_times example_runtime (Suc 0) two_setter_handler 0 =
     (two_setter_handler\<lparr>actionNames := Some \<lparr>map_id = 0, entries = [(''count'', ''setcount'')]\<rparr>\<rparr>, 1) \<and>
   map_set [(''count'', ''setCount'')] ''count'' ''setcount'' = [(''count'', ''setcount'')]"
  by (simp add: createReducerByHandler_def createReducerByHandler_actions_def
      preset_handler_def counter_handler_def two_setter_handler_def addAction_def startsWith_def
      reflect_simps example_runtime_simps convert_setCount convert_setcount)

end
